theory Spec2Isabelle
  imports Main "HOL-Library.AList"
begin

section \<open>Python values, exceptions and the task records\<close>

text \<open>
  The two servers (\<^verbatim>\<open>server.py\<close> and its reduced variant \<^verbatim>\<open>app.py\<close>) keep their
  state in module-level globals. The values stored in a task's \<^verbatim>\<open>result\<close> dictionary are
  JSON-like Python values.
\<close>

datatype pyval = PNone | PBool bool | PStr string | PDict "(string \<times> pyval) list"

text \<open>
  Exceptions, all of them instances of \<^verbatim>\<open>Exception\<close>: the two the servers raise themselves
  (\<^verbatim>\<open>HTTPException(status_code, detail)\<close> and the \<^verbatim>\<open>KeyError\<close> of a dictionary lookup),
  the \<^verbatim>\<open>asyncio.TimeoutError\<close> of \<^verbatim>\<open>wait_for\<close>, the \<^verbatim>\<open>RuntimeError\<close> of
  \<^verbatim>\<open>asyncio.create_task\<close>, and any other exception of a collaborator, carried with the
  text that \<^verbatim>\<open>str(e)\<close> gives.
\<close>

datatype exc =
    HTTPException nat string
  | KeyError string
  | TimeoutError
  | RuntimeError string
  | Exception string

function show_nat :: "nat \<Rightarrow> string" where
  "show_nat n =
     (if n < 10 then [char_of (48 + n)]
      else show_nat (n div 10) @ [char_of (48 + n mod 10)])"
  by pat_completeness auto
termination
  by (relation "measure id") auto

text \<open>
  \<^verbatim>\<open>repr\<close> of a string: in double quotes when the string holds an apostrophe and no
  double quote, in single quotes otherwise; the quote in use and the backslash are
  escaped, tab, newline and carriage return are written \<^verbatim>\<open>\t\<close>, \<^verbatim>\<open>\n\<close>, \<^verbatim>\<open>\r\<close>, and any
  other control character as \<^verbatim>\<open>\xhh\<close>. Bytes above \<^verbatim>\<open>0x7f\<close> are the UTF-8 bytes of
  characters outside ASCII, which \<^verbatim>\<open>repr\<close> copies when they are printable.
\<close>

definition hex_digit :: "nat \<Rightarrow> char" where
  "hex_digit n = (if n < 10 then char_of (48 + n) else char_of (87 + n))"

definition repr_char :: "char \<Rightarrow> char \<Rightarrow> string" where
  "repr_char q c =
     (if c = q \<or> c = CHR 0x5C then [CHR 0x5C, c]
      else if c = CHR 0x09 then [CHR 0x5C, CHR ''t'']
      else if c = CHR 0x0A then [CHR 0x5C, CHR ''n'']
      else if c = CHR 0x0D then [CHR 0x5C, CHR ''r'']
      else if (of_char c :: nat) < 32 \<or> c = CHR 0x7F then
        [CHR 0x5C, CHR ''x'', hex_digit (of_char c div 16), hex_digit (of_char c mod 16)]
      else [c])"

definition py_repr :: "string \<Rightarrow> string" where
  "py_repr s =
     (let q = (if CHR 0x27 \<in> set s \<and> CHR 0x22 \<notin> set s then CHR 0x22 else CHR 0x27)
      in [q] @ concat (map (repr_char q) s) @ [q])"

text \<open>
  \<^verbatim>\<open>str(e)\<close>: the framework's \<^verbatim>\<open>HTTPException\<close> prints as \<^verbatim>\<open>"<status_code>: <detail>"\<close>,
  a \<^verbatim>\<open>KeyError\<close> as the \<^verbatim>\<open>repr\<close> of its key, a time-out as the empty string, the others
  as their message.
\<close>

fun str_exc :: "exc \<Rightarrow> string" where
  "str_exc (HTTPException code detail) = show_nat code @ '': '' @ detail"
| "str_exc (KeyError k) = py_repr k"
| "str_exc TimeoutError = []"
| "str_exc (RuntimeError m) = m"
| "str_exc (Exception m) = m"

text \<open>
  A task record is the dictionary \<^verbatim>\<open>{"status": ..., "result": ..., "error": ...}\<close>;
  \<^verbatim>\<open>app.py\<close> stores the instruction under a fourth key \<^verbatim>\<open>"task"\<close>. The store
  \<^verbatim>\<open>tasks\<close> is a dictionary in insertion order: an association list updated in place.
\<close>

record task_rec =
  status :: string
  result :: "(string \<times> pyval) list option"
  error :: "string option"

record app_task_rec = task_rec +
  task :: string

text \<open>The request and response models (\<^verbatim>\<open>TaskRequest\<close>, \<^verbatim>\<open>TaskResponse\<close>, \<^verbatim>\<open>TaskStatus\<close>).\<close>

record task_request =
  req_task :: string
  custom_task :: "string option"

record task_response =
  resp_task_id :: string
  resp_status :: string
  resp_message :: string

record task_status =
  ts_task_id :: string
  ts_status :: string
  ts_result :: "(string \<times> pyval) list option"
  ts_error :: "string option"

text \<open>
  The built-in instruction, the same text in both files: a triple-quoted literal that
  starts with a newline, indents every line by four blanks and ends with four blanks.
  Characters outside ASCII are written as their UTF-8 bytes.
\<close>

definition oacute :: string where
  "oacute = [CHR 0xC3, CHR 0xB3]"

definition ntilde :: string where
  "ntilde = [CHR 0xC3, CHR 0xB1]"

definition default_task :: string where
  "default_task =
     [CHR 0x0A] @ ''    1. Ve a https://www.guruwalk.com/es'' @
     [CHR 0x0A] @ ''    2. Haz clic en '' @ [CHR 0x27] @ ''Iniciar sesi'' @ oacute @ ''n''
       @ [CHR 0x27] @ '' o '' @ [CHR 0x27] @ ''Login'' @ [CHR 0x27] @ ''.'' @
     [CHR 0x0A] @ ''    3. Haz clic en el bot'' @ oacute @ ''n que dice '' @ [CHR 0x27]
       @ ''Seguir con contrase'' @ ntilde @ ''a'' @ [CHR 0x27] @ '' o similar.'' @
     [CHR 0x0A] @ ''    4. Cuando aparezcan los campos, ingresa el email: heredialucasfac22@gmail.com'' @
     [CHR 0x0A] @ ''    5. Ingresa la contrase'' @ ntilde
       @ ''a exacta: Lucas37312237. (incluye el punto al final)'' @
     [CHR 0x0A] @ ''    6. Haz clic en '' @ [CHR 0x27] @ ''Iniciar sesi'' @ oacute @ ''n''
       @ [CHR 0x27] @ '' para completar el login.'' @
     [CHR 0x0A] @ ''    7. Una vez dentro, navega a la secci'' @ oacute @ ''n '' @ [CHR 0x27]
       @ ''Reservas'' @ [CHR 0x27] @ ''.'' @
     [CHR 0x0A] @ ''    8. Confirma que puedes ver el contenido de Reservas.'' @
     [CHR 0x0A] @ ''    9. Termina el flujo mostrando que fue exitoso.'' @
     [CHR 0x0A] @ ''    ''"

text \<open>
  \<^verbatim>\<open>final_task = request.custom_task if request.custom_task else default_task\<close>:
  the condition is the truthiness of the optional string, so \<^verbatim>\<open>None\<close> and \<^verbatim>\<open>""\<close> both
  select the default.
\<close>

definition final_task :: "task_request \<Rightarrow> string" where
  "final_task request =
     (case custom_task request of
        None \<Rightarrow> default_task
      | Some c \<Rightarrow> if c \<noteq> [] then c else default_task)"

section \<open>\<^verbatim>\<open>server.py\<close>: the provisioner\<close>

text \<open>
  The globals of \<^verbatim>\<open>server.py\<close>. A \<^verbatim>\<open>BrowserSession\<close> or \<^verbatim>\<open>ChatOpenAI\<close> object is
  known by its identity: the number of objects of its class built before it.
\<close>

record server =
  tasks :: "(string \<times> task_rec) list"
  browser_session :: "nat option"
  llm_model :: "nat option"
  sessions_made :: nat
  llms_made :: nat

definition server_init :: server where
  "server_init = \<lparr>tasks = [], browser_session = None, llm_model = None,
     sessions_made = 0, llms_made = 0\<rparr>"

text \<open>
  The agent is built from the instruction, the model client and the browser session.
  What \<^verbatim>\<open>agent.run()\<close> returns is used only through
  \<^verbatim>\<open>result.usage.model_dump() if result and result.usage else None\<close>: a falsy result, or
  a truthy one whose \<^verbatim>\<open>usage\<close> is \<^verbatim>\<open>None\<close> or dumps to a dictionary.
\<close>

record agent =
  agent_task :: string
  agent_llm :: nat
  agent_browser :: "nat option"

datatype agent_result = Falsy | Truthy "(string \<times> pyval) list option"

datatype run_outcome = Returned agent_result | Raised exc

fun usage_of :: "agent_result \<Rightarrow> pyval" where
  "usage_of Falsy = PNone"
| "usage_of (Truthy None) = PNone"
| "usage_of (Truthy (Some d)) = PDict d"

text \<open>
  What the collaborators do during one execution: each import, constructor and awaited
  call either succeeds (\<open>None\<close>) or raises.
\<close>

record env =
  import_browser :: "exc option"
  make_profile :: "exc option"
  make_session :: "exc option"
  start :: "exc option"
  import_llm :: "exc option"
  make_llm :: "exc option"
  import_agent :: "exc option"
  make_agent :: "agent \<Rightarrow> exc option"
  run :: "agent \<Rightarrow> run_outcome"

text \<open>
  A coroutine runs from one \<^verbatim>\<open>await\<close> that suspends to the next without interruption.
  A segment of code therefore raises, returns, or suspends.
\<close>

datatype 'a outcome = Raise exc | Return 'a | Await

text \<open>The two \<^verbatim>\<open>except\<close> clauses of \<^verbatim>\<open>get_browser\<close>.\<close>

definition browser_failure :: "exc \<Rightarrow> exc" where
  "browser_failure x =
     (case x of
        TimeoutError \<Rightarrow> HTTPException 503 ''Browser startup timeout''
      | _ \<Rightarrow> HTTPException 503 (''Browser unavailable: '' @ str_exc x))"

text \<open>
  \<^verbatim>\<open>get_browser\<close> up to \<^verbatim>\<open>await asyncio.wait_for(browser_session.start(), timeout=60)\<close>:
  the global is assigned before the session is started.
\<close>

definition get_browser_enter :: "env \<Rightarrow> server \<Rightarrow> nat option outcome \<times> server" where
  "get_browser_enter e s =
     (case browser_session s of
        Some b \<Rightarrow> (Return (Some b), s)
      | None \<Rightarrow>
          (case import_browser e of Some x \<Rightarrow> (Raise x, s) | None \<Rightarrow>
          (case make_profile e of Some x \<Rightarrow> (Raise x, s) | None \<Rightarrow>
          (case make_session e of
             Some x \<Rightarrow> (Raise (browser_failure x), s)
           | None \<Rightarrow>
               (Await, s\<lparr>browser_session := Some (sessions_made s),
                          sessions_made := Suc (sessions_made s)\<rparr>)))))"

text \<open>\<^verbatim>\<open>get_browser\<close> from the moment \<^verbatim>\<open>start()\<close> has ended.\<close>

definition get_browser_resume :: "env \<Rightarrow> server \<Rightarrow> (exc + nat option) \<times> server" where
  "get_browser_resume e s =
     (case start e of
        Some x \<Rightarrow> (Inl (browser_failure x), s)
      | None \<Rightarrow> (Inr (browser_session s), s))"

text \<open>A whole call of \<^verbatim>\<open>get_browser\<close>, nothing else running in between.\<close>

definition get_browser :: "env \<Rightarrow> server \<Rightarrow> (exc + nat option) \<times> server" where
  "get_browser e s =
     (case get_browser_enter e s of
        (Raise x, s') \<Rightarrow> (Inl x, s')
      | (Return b, s') \<Rightarrow> (Inr b, s')
      | (Await, s') \<Rightarrow> get_browser_resume e s')"

text \<open>\<^verbatim>\<open>get_llm\<close> has no \<^verbatim>\<open>await\<close>: it never suspends.\<close>

definition get_llm :: "env \<Rightarrow> server \<Rightarrow> (exc + nat) \<times> server" where
  "get_llm e s =
     (case llm_model s of
        Some l \<Rightarrow> (Inr l, s)
      | None \<Rightarrow>
          (case import_llm e of Some x \<Rightarrow> (Inl x, s) | None \<Rightarrow>
          (case make_llm e of
             Some x \<Rightarrow> (Inl x, s)
           | None \<Rightarrow>
               (Inr (llms_made s),
                s\<lparr>llm_model := Some (llms_made s), llms_made := Suc (llms_made s)\<rparr>))))"

section \<open>\<^verbatim>\<open>server.py\<close>: the endpoints\<close>

text \<open>
  \<^verbatim>\<open>create_task\<close>: the identifier is what \<^verbatim>\<open>uuid.uuid4()\<close> returned; the background
  tasks of the request are the list of calls \<^verbatim>\<open>run_task(task_id, final_task)\<close> to make
  once the response is sent.
\<close>

definition create_task ::
  "string \<Rightarrow> task_request \<Rightarrow> (string \<times> string) list \<Rightarrow> server
     \<Rightarrow> task_response \<times> (string \<times> string) list \<times> server" where
  "create_task task_id request background_tasks s =
     (\<lparr>resp_task_id = task_id, resp_status = ''started'',
       resp_message = ''Task created successfully''\<rparr>,
      background_tasks @ [(task_id, final_task request)],
      s\<lparr>tasks := AList.update task_id
           \<lparr>status = ''pending'', result = None, error = None\<rparr> (tasks s)\<rparr>)"

definition get_task :: "string \<Rightarrow> server \<Rightarrow> exc + task_status" where
  "get_task task_id s =
     (case map_of (tasks s) task_id of
        None \<Rightarrow> Inl (HTTPException 404 ''Task not found'')
      | Some t \<Rightarrow>
          Inr \<lparr>ts_task_id = task_id, ts_status = status t,
               ts_result = result t, ts_error = error t\<rparr>)"

definition list_tasks :: "server \<Rightarrow> string list \<times> nat" where
  "list_tasks s = (map fst (tasks s), length (tasks s))"

definition health :: "server \<Rightarrow> string \<times> string \<times> nat \<times> string" where
  "health s =
     (''healthy'',
      (if browser_session s \<noteq> None then ''ready'' else ''not_started''),
      length (filter (\<lambda>t. status t = ''running'') (map snd (tasks s))),
      ''online'')"

section \<open>\<^verbatim>\<open>server.py\<close>: the background task runner\<close>

text \<open>
  Where a \<^verbatim>\<open>run_task\<close> coroutine stands: not started, suspended in \<^verbatim>\<open>get_browser\<close> on
  the start of the session, suspended on \<^verbatim>\<open>agent.run()\<close>, returned, or left by an
  exception that nothing caught.
\<close>

datatype pc = Fresh | AwaitStart | AwaitRun agent | Finished | Crashed exc

text \<open>
  The \<^verbatim>\<open>except Exception\<close> handler: two subscripted assignments, the first of which
  raises \<^verbatim>\<open>KeyError\<close> out of the coroutine when the record is absent.
\<close>

definition fail_task :: "string \<Rightarrow> exc \<Rightarrow> server \<Rightarrow> pc \<times> server" where
  "fail_task task_id x s =
     (case map_of (tasks s) task_id of
        None \<Rightarrow> (Crashed (KeyError task_id), s)
      | Some r \<Rightarrow>
          (Finished,
           s\<lparr>tasks := AList.update task_id
                (r\<lparr>status := ''failed'', error := Some (str_exc x)\<rparr>) (tasks s)\<rparr>))"

text \<open>From \<^verbatim>\<open>llm = await get_llm()\<close> to \<^verbatim>\<open>await agent.run()\<close>.\<close>

definition run_task_agent ::
  "env \<Rightarrow> string \<Rightarrow> string \<Rightarrow> nat option \<Rightarrow> server \<Rightarrow> pc \<times> server" where
  "run_task_agent e task_id task_text browser s =
     (case get_llm e s of
        (Inl x, s') \<Rightarrow> fail_task task_id x s'
      | (Inr llm, s') \<Rightarrow>
          (case import_agent e of Some x \<Rightarrow> fail_task task_id x s' | None \<Rightarrow>
          (let a = \<lparr>agent_task = task_text, agent_llm = llm, agent_browser = browser\<rparr>
           in case make_agent e a of
                Some x \<Rightarrow> fail_task task_id x s'
              | None \<Rightarrow> (AwaitRun a, s'))))"

text \<open>From \<^verbatim>\<open>result = await agent.run()\<close> to the end of the \<^verbatim>\<open>try\<close> block.\<close>

definition run_task_save :: "env \<Rightarrow> string \<Rightarrow> agent \<Rightarrow> server \<Rightarrow> pc \<times> server" where
  "run_task_save e task_id a s =
     (case run e a of
        Raised x \<Rightarrow> fail_task task_id x s
      | Returned res \<Rightarrow>
          (case map_of (tasks s) task_id of
             None \<Rightarrow> fail_task task_id (KeyError task_id) s
           | Some r \<Rightarrow>
               (Finished,
                s\<lparr>tasks := AList.update task_id
                     (r\<lparr>status := ''completed'',
                        result := Some [(''success'', PBool True), (''usage'', usage_of res)]\<rparr>)
                     (tasks s)\<rparr>)))"

text \<open>One uninterrupted segment of \<^verbatim>\<open>run_task(task_id, task_text)\<close>.\<close>

fun run_task_step :: "env \<Rightarrow> string \<Rightarrow> string \<Rightarrow> pc \<Rightarrow> server \<Rightarrow> pc \<times> server" where
  "run_task_step e task_id task_text Fresh s =
     (case map_of (tasks s) task_id of
        None \<Rightarrow> fail_task task_id (KeyError task_id) s
      | Some r \<Rightarrow>
          (case get_browser_enter e
                  (s\<lparr>tasks := AList.update task_id (r\<lparr>status := ''running''\<rparr>) (tasks s)\<rparr>) of
             (Raise x, s') \<Rightarrow> fail_task task_id x s'
           | (Await, s') \<Rightarrow> (AwaitStart, s')
           | (Return browser, s') \<Rightarrow> run_task_agent e task_id task_text browser s'))"
| "run_task_step e task_id task_text AwaitStart s =
     (case get_browser_resume e s of
        (Inl x, s') \<Rightarrow> fail_task task_id x s'
      | (Inr browser, s') \<Rightarrow> run_task_agent e task_id task_text browser s')"
| "run_task_step e task_id task_text (AwaitRun a) s = run_task_save e task_id a s"
| "run_task_step e task_id task_text Finished s = (Finished, s)"
| "run_task_step e task_id task_text (Crashed x) s = (Crashed x, s)"

text \<open>
  \<^verbatim>\<open>run_task\<close> run to its end with nothing else in between: at most three segments.
\<close>

definition run_task :: "env \<Rightarrow> string \<Rightarrow> string \<Rightarrow> server \<Rightarrow> pc \<times> server" where
  "run_task e task_id task_text s =
     (case run_task_step e task_id task_text Fresh s of (p1, s1) \<Rightarrow>
      case run_task_step e task_id task_text p1 s1 of (p2, s2) \<Rightarrow>
      run_task_step e task_id task_text p2 s2)"

section \<open>\<^verbatim>\<open>app.py\<close>\<close>

text \<open>
  \<^verbatim>\<open>app.py\<close> has one global, the store; every task builds a browser session and a
  model client of its own.
\<close>

record app =
  app_tasks :: "(string \<times> app_task_rec) list"

definition app_init :: app where
  "app_init = \<lparr>app_tasks = []\<rparr>"

record app_env =
  app_imports :: "exc option"
  app_make_profile :: "exc option"
  app_make_session :: "exc option"
  app_start :: "exc option"
  app_make_llm :: "exc option"
  app_make_agent :: "string \<Rightarrow> exc option"
  app_run :: "string \<Rightarrow> exc option"
  app_close :: "exc option"

text \<open>
  \<^verbatim>\<open>create_task\<close> of \<^verbatim>\<open>app.py\<close>: the instruction goes into the record, and the
  background task is \<^verbatim>\<open>run_agent_task(task_id)\<close>.
\<close>

definition app_create_task ::
  "string \<Rightarrow> task_request \<Rightarrow> string list \<Rightarrow> app \<Rightarrow> task_response \<times> string list \<times> app" where
  "app_create_task task_id request background_tasks s =
     (\<lparr>resp_task_id = task_id, resp_status = ''started'',
       resp_message = ''Task created successfully''\<rparr>,
      background_tasks @ [task_id],
      s\<lparr>app_tasks := AList.update task_id
           \<lparr>status = ''pending'', result = None, error = None, task = final_task request\<rparr>
           (app_tasks s)\<rparr>)"

definition app_get_task :: "string \<Rightarrow> app \<Rightarrow> exc + task_status" where
  "app_get_task task_id s =
     (case map_of (app_tasks s) task_id of
        None \<Rightarrow> Inl (HTTPException 404 ''Task not found'')
      | Some t \<Rightarrow>
          Inr \<lparr>ts_task_id = task_id, ts_status = status t,
               ts_result = result t, ts_error = error t\<rparr>)"

definition app_list_tasks :: "app \<Rightarrow> string list \<times> nat" where
  "app_list_tasks s = (map fst (app_tasks s), length (app_tasks s))"

definition app_health :: "app \<Rightarrow> string \<times> nat" where
  "app_health s = (''healthy'', length (app_tasks s))"

text \<open>
  Where an \<^verbatim>\<open>_async_run_task\<close> coroutine stands: it suspends on \<^verbatim>\<open>browser.start()\<close>,
  on \<^verbatim>\<open>agent.run()\<close> and on \<^verbatim>\<open>browser.close()\<close>.
\<close>

datatype app_pc =
  AFresh | AAwaitStart | AAwaitRun string | AAwaitClose | AFinished | ACrashed exc

text \<open>
  \<^verbatim>\<open>run_agent_task\<close> is a plain function whose body is
  \<^verbatim>\<open>asyncio.create_task(_async_run_task(task_id))\<close>: it adds a coroutine to the running
  event loop of the calling thread, and \<^verbatim>\<open>asyncio.create_task\<close> raises
  \<^verbatim>\<open>RuntimeError\<close> when that thread has none. Nothing in \<^verbatim>\<open>run_agent_task\<close> catches it.
\<close>

definition run_agent_task ::
  "bool \<Rightarrow> string \<Rightarrow> (string \<times> app_pc) list \<Rightarrow> exc + (string \<times> app_pc) list" where
  "run_agent_task running_loop task_id coroutines =
     (if running_loop then Inr (coroutines @ [(task_id, AFresh)])
      else Inl (RuntimeError ''no running event loop''))"

definition app_fail_task :: "string \<Rightarrow> exc \<Rightarrow> app \<Rightarrow> app_pc \<times> app" where
  "app_fail_task task_id x s =
     (case map_of (app_tasks s) task_id of
        None \<Rightarrow> (ACrashed (KeyError task_id), s)
      | Some r \<Rightarrow>
          (AFinished,
           s\<lparr>app_tasks := AList.update task_id
                (r\<lparr>status := ''failed'', error := Some (str_exc x)\<rparr>) (app_tasks s)\<rparr>))"

text \<open>
  One uninterrupted segment of \<^verbatim>\<open>_async_run_task(task_id)\<close>. The record is marked
  \<^verbatim>\<open>completed\<close> before \<^verbatim>\<open>await browser.close()\<close>, inside the same \<^verbatim>\<open>try\<close> block.
\<close>

fun async_run_task_step :: "app_env \<Rightarrow> string \<Rightarrow> app_pc \<Rightarrow> app \<Rightarrow> app_pc \<times> app" where
  "async_run_task_step e task_id AFresh s =
     (case map_of (app_tasks s) task_id of
        None \<Rightarrow> app_fail_task task_id (KeyError task_id) s
      | Some r \<Rightarrow>
          (let s' = s\<lparr>app_tasks := AList.update task_id (r\<lparr>status := ''running''\<rparr>) (app_tasks s)\<rparr>
           in case app_imports e of Some x \<Rightarrow> app_fail_task task_id x s' | None \<Rightarrow>
             (case app_make_profile e of Some x \<Rightarrow> app_fail_task task_id x s' | None \<Rightarrow>
             (case app_make_session e of Some x \<Rightarrow> app_fail_task task_id x s' | None \<Rightarrow>
                (AAwaitStart, s')))))"
| "async_run_task_step e task_id AAwaitStart s =
     (case app_start e of Some x \<Rightarrow> app_fail_task task_id x s | None \<Rightarrow>
     (case app_make_llm e of Some x \<Rightarrow> app_fail_task task_id x s | None \<Rightarrow>
     (case map_of (app_tasks s) task_id of
        None \<Rightarrow> app_fail_task task_id (KeyError task_id) s
      | Some r \<Rightarrow>
          (case app_make_agent e (task r) of
             Some x \<Rightarrow> app_fail_task task_id x s
           | None \<Rightarrow> (AAwaitRun (task r), s)))))"
| "async_run_task_step e task_id (AAwaitRun t) s =
     (case app_run e t of Some x \<Rightarrow> app_fail_task task_id x s | None \<Rightarrow>
     (case map_of (app_tasks s) task_id of
        None \<Rightarrow> app_fail_task task_id (KeyError task_id) s
      | Some r \<Rightarrow>
          (AAwaitClose,
           s\<lparr>app_tasks := AList.update task_id
                (r\<lparr>status := ''completed'', result := Some [(''success'', PBool True)]\<rparr>)
                (app_tasks s)\<rparr>)))"
| "async_run_task_step e task_id AAwaitClose s =
     (case app_close e of Some x \<Rightarrow> app_fail_task task_id x s | None \<Rightarrow> (AFinished, s))"
| "async_run_task_step e task_id AFinished s = (AFinished, s)"
| "async_run_task_step e task_id (ACrashed x) s = (ACrashed x, s)"

text \<open>\<^verbatim>\<open>_async_run_task\<close> run to its end with nothing else in between.\<close>

definition async_run_task :: "app_env \<Rightarrow> string \<Rightarrow> app \<Rightarrow> app_pc \<times> app" where
  "async_run_task e task_id s =
     (case async_run_task_step e task_id AFresh s of (p1, s1) \<Rightarrow>
      case async_run_task_step e task_id p1 s1 of (p2, s2) \<Rightarrow>
      case async_run_task_step e task_id p2 s2 of (p3, s3) \<Rightarrow>
      async_run_task_step e task_id p3 s3)"

section \<open>The servers at work\<close>

text \<open>
  A run of \<^verbatim>\<open>server.py\<close> is a sequence of events on its one event loop: a request to an
  endpoint, or the resumption of one of the \<^verbatim>\<open>run_task\<close> coroutines for one segment,
  with what its collaborators then do. \<open>Post request uid\<close> is a \<^verbatim>\<open>POST /tasks\<close> during
  which \<^verbatim>\<open>uuid.uuid4()\<close> returns \<open>uid\<close>.
\<close>

record system =
  srv :: server
  jobs :: "(string \<times> string \<times> pc) list"

datatype event =
    Post task_request string
  | Get string
  | ListTasks
  | Health
  | Resume nat env

definition system_init :: system where
  "system_init = \<lparr>srv = server_init, jobs = []\<rparr>"

fun exec_event :: "event \<Rightarrow> system \<Rightarrow> system" where
  "exec_event (Post request uid) sys =
     (case create_task uid request [] (srv sys) of
        (response, background_tasks, s') \<Rightarrow>
          sys\<lparr>srv := s',
              jobs := jobs sys @ map (\<lambda>(task_id, task_text). (task_id, task_text, Fresh))
                                     background_tasks\<rparr>)"
| "exec_event (Resume i e) sys =
     (if i < length (jobs sys) then
        (case jobs sys ! i of
           (task_id, task_text, p) \<Rightarrow>
             (case run_task_step e task_id task_text p (srv sys) of
                (p', s') \<Rightarrow> sys\<lparr>srv := s', jobs := (jobs sys)[i := (task_id, task_text, p')]\<rparr>))
      else sys)"
| "exec_event _ sys = sys"

definition exec_events :: "event list \<Rightarrow> system \<Rightarrow> system" where
  "exec_events evs sys = foldl (\<lambda>s ev. exec_event ev s) sys evs"

fun posted_ids :: "event list \<Rightarrow> string list" where
  "posted_ids [] = []"
| "posted_ids (Post request uid # evs) = uid # posted_ids evs"
| "posted_ids (_ # evs) = posted_ids evs"

text \<open>
  A run of \<^verbatim>\<open>app.py\<close>: a request, the scheduler calling the next background task
  \<^verbatim>\<open>run_agent_task\<close> from a thread with or without a running event loop, or the
  resumption of a spawned coroutine.
\<close>

record app_system =
  app_state :: app
  app_background :: "string list"
  app_coroutines :: "(string \<times> app_pc) list"

datatype app_event =
    APost task_request string
  | AGet string
  | AListTasks
  | AHealth
  | ABackground bool
  | AResume nat app_env

definition app_system_init :: app_system where
  "app_system_init = \<lparr>app_state = app_init, app_background = [], app_coroutines = []\<rparr>"

fun app_exec_event :: "app_event \<Rightarrow> app_system \<Rightarrow> app_system" where
  "app_exec_event (APost request uid) sys =
     (case app_create_task uid request (app_background sys) (app_state sys) of
        (response, background_tasks, s') \<Rightarrow>
          sys\<lparr>app_state := s', app_background := background_tasks\<rparr>)"
| "app_exec_event (ABackground running_loop) sys =
     (case app_background sys of
        [] \<Rightarrow> sys
      | task_id # rest \<Rightarrow>
          (case run_agent_task running_loop task_id (app_coroutines sys) of
             Inl x \<Rightarrow> sys\<lparr>app_background := rest\<rparr>
           | Inr coroutines \<Rightarrow> sys\<lparr>app_background := rest, app_coroutines := coroutines\<rparr>))"
| "app_exec_event (AResume i e) sys =
     (if i < length (app_coroutines sys) then
        (case app_coroutines sys ! i of
           (task_id, p) \<Rightarrow>
             (case async_run_task_step e task_id p (app_state sys) of
                (p', s') \<Rightarrow>
                  sys\<lparr>app_state := s', app_coroutines := (app_coroutines sys)[i := (task_id, p')]\<rparr>))
      else sys)"
| "app_exec_event _ sys = sys"

definition app_exec_events :: "app_event list \<Rightarrow> app_system \<Rightarrow> app_system" where
  "app_exec_events evs sys = foldl (\<lambda>s ev. app_exec_event ev s) sys evs"

fun app_posted_ids :: "app_event list \<Rightarrow> string list" where
  "app_posted_ids [] = []"
| "app_posted_ids (APost request uid # evs) = uid # app_posted_ids evs"
| "app_posted_ids (_ # evs) = app_posted_ids evs"

section \<open>Concurrent first calls of the provisioner\<close>

text \<open>
  A caller of \<^verbatim>\<open>get_browser\<close> has not run yet, is suspended on the start of the
  session, has got its return value, or has got an exception. Callers run on the one
  event loop: a schedule names, step by step, the caller that runs its next segment and
  what the collaborators do then.
\<close>

datatype caller = Calling | Starting | Got "nat option" | Failed exc

fun get_browser_call :: "env \<Rightarrow> caller \<Rightarrow> server \<Rightarrow> caller \<times> server" where
  "get_browser_call e Calling s =
     (case get_browser_enter e s of
        (Raise x, s') \<Rightarrow> (Failed x, s')
      | (Return b, s') \<Rightarrow> (Got b, s')
      | (Await, s') \<Rightarrow> (Starting, s'))"
| "get_browser_call e Starting s =
     (case get_browser_resume e s of
        (Inl x, s') \<Rightarrow> (Failed x, s')
      | (Inr b, s') \<Rightarrow> (Got b, s'))"
| "get_browser_call e (Got b) s = (Got b, s)"
| "get_browser_call e (Failed x) s = (Failed x, s)"

fun resume_caller :: "nat \<times> env \<Rightarrow> caller list \<times> server \<Rightarrow> caller list \<times> server" where
  "resume_caller (i, e) (cs, s) =
     (if i < length cs then
        (case get_browser_call e (cs ! i) s of (c', s') \<Rightarrow> (cs[i := c'], s'))
      else (cs, s))"

definition concurrent_get_browser ::
  "(nat \<times> env) list \<Rightarrow> nat \<Rightarrow> server \<Rightarrow> caller list \<times> server" where
  "concurrent_get_browser schedule n s =
     foldl (\<lambda>st ev. resume_caller ev st) (replicate n Calling, s) schedule"

text \<open>
  \<^verbatim>\<open>get_llm\<close> never suspends, so concurrent calls run one after the other, in the order
  the event loop picks.
\<close>

fun get_llm_calls :: "env list \<Rightarrow> server \<Rightarrow> (exc + nat) list \<times> server" where
  "get_llm_calls [] s = ([], s)"
| "get_llm_calls (e # es) s =
     (case get_llm e s of
        (r, s') \<Rightarrow> (case get_llm_calls es s' of (rs, s'') \<Rightarrow> (r # rs, s'')))"

section \<open>Concrete collaborators and requests\<close>

text \<open>Collaborators that never fail, and a request with an instruction of its own.\<close>

definition env_ok :: env where
  "env_ok = \<lparr>import_browser = None, make_profile = None, make_session = None, start = None,
     import_llm = None, make_llm = None, import_agent = None, make_agent = (\<lambda>a. None),
     run = (\<lambda>a. Returned (Truthy None))\<rparr>"

definition app_env_ok :: app_env where
  "app_env_ok = \<lparr>app_imports = None, app_make_profile = None, app_make_session = None,
     app_start = None, app_make_llm = None, app_make_agent = (\<lambda>t. None),
     app_run = (\<lambda>t. None), app_close = None\<rparr>"

definition go_request :: task_request where
  "go_request = \<lparr>req_task = ''default'', custom_task = Some ''go to example.com''\<rparr>"

definition pending_go :: app where
  "pending_go = \<lparr>app_tasks =
     [(''t1'', \<lparr>status = ''pending'', result = None, error = None, task = ''go''\<rparr>)]\<rparr>"

definition pending_server :: server where
  "pending_server = server_init\<lparr>tasks :=
     [(''t1'', \<lparr>status = ''pending'', result = None, error = None\<rparr>)]\<rparr>"

definition warm_server :: server where
  "warm_server = pending_server\<lparr>browser_session := Some 0, sessions_made := 1\<rparr>"

section \<open>What an execution meets, in program order\<close>

text \<open>
  The first exception that the \<^verbatim>\<open>try\<close> block of \<^verbatim>\<open>run_task\<close> meets, or else the result
  of the agent: acquisition of the browser, acquisition of the model client, import and
  construction of the agent, and its run.
\<close>

definition attempt_agent :: "env \<Rightarrow> string \<Rightarrow> nat option \<Rightarrow> server \<Rightarrow> exc + agent_result" where
  "attempt_agent e task_text browser s =
     (case get_llm e s of
        (Inl x, s') \<Rightarrow> Inl x
      | (Inr llm, s') \<Rightarrow>
          (case import_agent e of Some x \<Rightarrow> Inl x | None \<Rightarrow>
          (let a = \<lparr>agent_task = task_text, agent_llm = llm, agent_browser = browser\<rparr>
           in case make_agent e a of
                Some x \<Rightarrow> Inl x
              | None \<Rightarrow> (case run e a of Raised x \<Rightarrow> Inl x | Returned res \<Rightarrow> Inr res))))"

definition attempt :: "env \<Rightarrow> string \<Rightarrow> server \<Rightarrow> exc + agent_result" where
  "attempt e task_text s =
     (case get_browser e s of
        (Inl x, s') \<Rightarrow> Inl x
      | (Inr browser, s') \<Rightarrow> attempt_agent e task_text browser s')"

definition outcome_rec :: "task_rec \<Rightarrow> exc + agent_result \<Rightarrow> task_rec" where
  "outcome_rec r v =
     (case v of
        Inl x \<Rightarrow> r\<lparr>status := ''failed'', error := Some (str_exc x)\<rparr>
      | Inr res \<Rightarrow>
          r\<lparr>status := ''completed'',
            result := Some [(''success'', PBool True), (''usage'', usage_of res)]\<rparr>)"

text \<open>
  The first exception that the \<^verbatim>\<open>try\<close> block of \<^verbatim>\<open>_async_run_task\<close> meets: the imports,
  the three constructors and the three awaited calls, in program order.
\<close>

primrec first_some :: "'a option list \<Rightarrow> 'a option" where
  "first_some [] = None"
| "first_some (v # vs) = (case v of None \<Rightarrow> first_some vs | Some x \<Rightarrow> Some x)"

definition app_attempt :: "app_env \<Rightarrow> string \<Rightarrow> exc option" where
  "app_attempt e task_text =
     first_some [app_imports e, app_make_profile e, app_make_session e, app_start e,
                 app_make_llm e, app_make_agent e task_text, app_run e task_text, app_close e]"

definition app_failed :: "app_task_rec \<Rightarrow> exc \<Rightarrow> app_task_rec" where
  "app_failed r x = r\<lparr>status := ''failed'', error := Some (str_exc x)\<rparr>"

text \<open>
  For the callers of \<^verbatim>\<open>get_browser\<close>: before any session is built every caller is still
  to run or has got an exception; once session \<open>n0\<close> is built it stays the cached one, and
  a caller is still to run, suspended, holds session \<open>n0\<close>, or has got an exception.
  Collaborators are quiet when nothing in \<^verbatim>\<open>get_browser\<close> raises.
\<close>

definition cold :: "nat \<Rightarrow> caller list \<times> server \<Rightarrow> bool" where
  "cold n0 st = (browser_session (snd st) = None \<and> sessions_made (snd st) = n0
     \<and> (\<forall>c \<in> set (fst st). c = Calling \<or> (\<exists>x. c = Failed x)))"

definition warm :: "nat \<Rightarrow> caller list \<times> server \<Rightarrow> bool" where
  "warm n0 st = (browser_session (snd st) = Some n0 \<and> sessions_made (snd st) = Suc n0
     \<and> (\<forall>c \<in> set (fst st).
           c = Calling \<or> c = Starting \<or> c = Got (Some n0) \<or> (\<exists>x. c = Failed x)))"

definition quiet :: "env \<Rightarrow> bool" where
  "quiet e = (import_browser e = None \<and> make_profile e = None \<and> make_session e = None
     \<and> start e = None)"

text \<open>
  For the records of \<^verbatim>\<open>server.py\<close>: a status is terminal when it is \<^verbatim>\<open>completed\<close> or
  \<^verbatim>\<open>failed\<close>; a record is consistent when result and error fit its status; the place of
  a \<^verbatim>\<open>run_task\<close> coroutine agrees with the status of its record; and a state of the
  server is sound when every record has its one coroutine, which agrees with it.
\<close>

definition terminal :: "string \<Rightarrow> bool" where
  "terminal st = (st = ''completed'' \<or> st = ''failed'')"

definition consistent :: "task_rec \<Rightarrow> bool" where
  "consistent r =
     (if status r = ''pending'' \<or> status r = ''running'' then result r = None \<and> error r = None
      else if status r = ''completed'' then result r \<noteq> None \<and> error r = None
      else status r = ''failed'' \<and> result r = None \<and> error r \<noteq> None)"

definition agrees :: "pc \<Rightarrow> task_rec \<Rightarrow> bool" where
  "agrees p r =
     (case p of
        Fresh \<Rightarrow> status r = ''pending''
      | AwaitStart \<Rightarrow> status r = ''running''
      | AwaitRun a \<Rightarrow> status r = ''running''
      | Finished \<Rightarrow> terminal (status r)
      | Crashed x \<Rightarrow> False)"

definition sound :: "system \<Rightarrow> bool" where
  "sound sys =
     (distinct (map fst (jobs sys))
      \<and> fst ` set (jobs sys) = fst ` set (tasks (srv sys))
      \<and> (\<forall>j < length (jobs sys).
            \<exists>r. map_of (tasks (srv sys)) (fst (jobs sys ! j)) = Some r
                 \<and> agrees (snd (snd (jobs sys ! j))) r \<and> consistent r))"

section \<open>The keys of the store\<close>

text \<open>
  Only \<^verbatim>\<open>create_task\<close> adds a key to \<^verbatim>\<open>tasks\<close>; the runners assign to entries of
  records that exist. So the keys of the store are the identifiers handed out so far.
\<close>

lemma map_of_Some_key: "map_of al k = Some v \<Longrightarrow> k \<in> fst ` set al"
  by (metis domI dom_map_of_conv_image_fst)

lemma update_present_keys:
  "map_of al k = Some v \<Longrightarrow> map fst (AList.update k w al) = map fst al"
  by (simp add: update_keys map_of_Some_key)

lemma fail_task_keys: "map fst (tasks (snd (fail_task tid x s))) = map fst (tasks s)"
  by (simp add: fail_task_def update_present_keys split: option.splits)

lemma get_browser_enter_tasks: "tasks (snd (get_browser_enter e s)) = tasks s"
  by (simp add: get_browser_enter_def split: option.splits)

lemma get_browser_resume_state: "snd (get_browser_resume e s) = s"
  by (simp add: get_browser_resume_def split: option.splits)

lemma get_llm_tasks: "tasks (snd (get_llm e s)) = tasks s"
  by (simp add: get_llm_def split: option.splits)

lemma run_task_agent_keys:
  "map fst (tasks (snd (run_task_agent e tid txt b s))) = map fst (tasks s)"
proof (cases "get_llm e s")
  case (Pair r s')
  then have "tasks s' = tasks s" using get_llm_tasks [of e s] by simp
  with Pair show ?thesis
    by (simp add: run_task_agent_def Let_def fail_task_keys split: sum.splits option.splits)
qed

lemma run_task_save_keys:
  "map fst (tasks (snd (run_task_save e tid a s))) = map fst (tasks s)"
  by (simp add: run_task_save_def fail_task_keys update_present_keys
      split: run_outcome.splits option.splits)

lemma run_task_step_keys:
  "map fst (tasks (snd (run_task_step e tid txt p s))) = map fst (tasks s)"
proof (cases p)
  case Fresh
  show ?thesis
  proof (cases "map_of (tasks s) tid")
    case None
    with Fresh show ?thesis by (simp add: fail_task_keys)
  next
    case (Some r)
    define s1 where "s1 = s\<lparr>tasks := AList.update tid (r\<lparr>status := ''running''\<rparr>) (tasks s)\<rparr>"
    have k1: "map fst (tasks s1) = map fst (tasks s)"
      using Some by (simp add: s1_def update_present_keys)
    obtain o1 s2 where gb: "get_browser_enter e s1 = (o1, s2)" by (cases "get_browser_enter e s1")
    then have "tasks s2 = tasks s1" using get_browser_enter_tasks [of e s1] by simp
    with k1 have k2: "map fst (tasks s2) = map fst (tasks s)" by simp
    from Fresh Some gb k2 show ?thesis
      by (cases o1) (simp_all add: s1_def [symmetric] fail_task_keys run_task_agent_keys)
  qed
next
  case AwaitStart
  obtain r s' where gb: "get_browser_resume e s = (r, s')" by (cases "get_browser_resume e s")
  then have "s' = s" using get_browser_resume_state [of e s] by simp
  with AwaitStart gb show ?thesis
    by (cases r) (simp_all add: fail_task_keys run_task_agent_keys)
next
  case (AwaitRun a)
  then show ?thesis by (simp add: run_task_save_keys)
qed simp_all

lemma exec_event_keys:
  "set (map fst (tasks (srv (exec_event ev sys))))
     = set (map fst (tasks (srv sys))) \<union> set (posted_ids [ev])"
proof (cases ev)
  case (Post request uid)
  then show ?thesis by (simp add: create_task_def dom_update)
next
  case (Resume i e)
  show ?thesis
  proof (cases "i < length (jobs sys)")
    case True
    obtain tid tx p where j: "jobs sys ! i = (tid, tx, p)" by (cases "jobs sys ! i")
    obtain p' s' where st: "run_task_step e tid tx p (srv sys) = (p', s')"
      by (cases "run_task_step e tid tx p (srv sys)")
    then have "map fst (tasks s') = map fst (tasks (srv sys))"
      using run_task_step_keys [of e tid tx p "srv sys"] by simp
    with Resume True j st show ?thesis by simp
  next
    case False
    with Resume show ?thesis by simp
  qed
qed simp_all

lemma posted_ids_append: "posted_ids (xs @ ys) = posted_ids xs @ posted_ids ys"
  by (induction xs rule: posted_ids.induct) simp_all

lemma exec_events_keys:
  "set (map fst (tasks (srv (exec_events evs sys))))
     = set (map fst (tasks (srv sys))) \<union> set (posted_ids evs)"
proof (induction evs rule: rev_induct)
  case Nil
  then show ?case by (simp add: exec_events_def)
next
  case (snoc ev evs)
  have "exec_events (evs @ [ev]) sys = exec_event ev (exec_events evs sys)"
    by (simp add: exec_events_def)
  then show ?case
    using snoc exec_event_keys [of ev "exec_events evs sys"]
    by (simp add: posted_ids_append Un_assoc)
qed

lemma app_fail_task_keys:
  "map fst (app_tasks (snd (app_fail_task tid x s))) = map fst (app_tasks s)"
  by (simp add: app_fail_task_def update_present_keys split: option.splits)

lemma async_run_task_step_keys:
  "map fst (app_tasks (snd (async_run_task_step e tid p s))) = map fst (app_tasks s)"
proof (cases p)
  case AFresh
  show ?thesis
  proof (cases "map_of (app_tasks s) tid")
    case None
    with AFresh show ?thesis by (simp add: app_fail_task_keys)
  next
    case (Some r)
    define s1 where
      "s1 = s\<lparr>app_tasks := AList.update tid (r\<lparr>status := ''running''\<rparr>) (app_tasks s)\<rparr>"
    have k1: "map fst (app_tasks s1) = map fst (app_tasks s)"
      using Some by (simp add: s1_def update_present_keys)
    have "map fst (app_tasks (snd (app_fail_task tid x s1))) = map fst (app_tasks s)" for x
      using app_fail_task_keys [of tid x s1] k1 by simp
    with AFresh Some k1 show ?thesis
      by (simp add: s1_def [symmetric] Let_def split: option.splits)
  qed
next
  case AAwaitStart
  then show ?thesis by (simp add: app_fail_task_keys split: option.splits)
next
  case (AAwaitRun t)
  then show ?thesis by (simp add: app_fail_task_keys update_present_keys split: option.splits)
next
  case AAwaitClose
  then show ?thesis by (simp add: app_fail_task_keys split: option.splits)
qed simp_all

lemma app_exec_event_keys:
  "set (map fst (app_tasks (app_state (app_exec_event ev sys))))
     = set (map fst (app_tasks (app_state sys))) \<union> set (app_posted_ids [ev])"
proof (cases ev)
  case (APost request uid)
  then show ?thesis by (simp add: app_create_task_def dom_update)
next
  case (ABackground running_loop)
  then show ?thesis by (simp add: run_agent_task_def split: list.splits)
next
  case (AResume i e)
  show ?thesis
  proof (cases "i < length (app_coroutines sys)")
    case True
    obtain tid p where j: "app_coroutines sys ! i = (tid, p)" by (cases "app_coroutines sys ! i")
    obtain p' s' where st: "async_run_task_step e tid p (app_state sys) = (p', s')"
      by (cases "async_run_task_step e tid p (app_state sys)")
    then have "map fst (app_tasks s') = map fst (app_tasks (app_state sys))"
      using async_run_task_step_keys [of e tid p "app_state sys"] by simp
    with AResume True j st show ?thesis by simp
  next
    case False
    with AResume show ?thesis by simp
  qed
qed simp_all

lemma app_posted_ids_append: "app_posted_ids (xs @ ys) = app_posted_ids xs @ app_posted_ids ys"
  by (induction xs rule: app_posted_ids.induct) simp_all

lemma app_exec_events_keys:
  "set (map fst (app_tasks (app_state (app_exec_events evs sys))))
     = set (map fst (app_tasks (app_state sys))) \<union> set (app_posted_ids evs)"
proof (induction evs rule: rev_induct)
  case Nil
  then show ?case by (simp add: app_exec_events_def)
next
  case (snoc ev evs)
  have "app_exec_events (evs @ [ev]) sys = app_exec_event ev (app_exec_events evs sys)"
    by (simp add: app_exec_events_def)
  then show ?case
    using snoc app_exec_event_keys [of ev "app_exec_events evs sys"]
    by (simp add: app_posted_ids_append Un_assoc)
qed

lemma server_store_keys:
  "fst ` set (tasks (srv (exec_events evs system_init))) = set (posted_ids evs)"
  using exec_events_keys [of evs system_init] by (simp add: system_init_def server_init_def)

lemma app_store_keys:
  "fst ` set (app_tasks (app_state (app_exec_events evs app_system_init))) = set (app_posted_ids evs)"
  using app_exec_events_keys [of evs app_system_init]
  by (simp add: app_system_init_def app_init_def)

lemma map_of_None_iff: "map_of al k = None \<longleftrightarrow> k \<notin> fst ` set al"
  by (simp add: map_of_eq_None_iff)

section \<open>Submission and lookup\<close>

text \<open>
  C8. After any run of either server from its start, \<^verbatim>\<open>get_task\<close> raises the 404
  exception \<^verbatim>\<open>Task not found\<close> for an identifier that no \<^verbatim>\<open>POST /tasks\<close> has returned,
  and returns the record's status, result and error for one that has been returned.
\<close>

theorem get_task_not_found_iff_never_posted:
  "(tid \<notin> set (posted_ids evs) \<longrightarrow>
      get_task tid (srv (exec_events evs system_init)) = Inl (HTTPException 404 ''Task not found''))
   \<and> (tid \<in> set (posted_ids evs) \<longrightarrow>
      (\<exists>r. map_of (tasks (srv (exec_events evs system_init))) tid = Some r
         \<and> get_task tid (srv (exec_events evs system_init))
             = Inr \<lparr>ts_task_id = tid, ts_status = status r, ts_result = result r,
                    ts_error = error r\<rparr>))
   \<and> (tid \<notin> set (app_posted_ids aevs) \<longrightarrow>
      app_get_task tid (app_state (app_exec_events aevs app_system_init))
        = Inl (HTTPException 404 ''Task not found''))
   \<and> (tid \<in> set (app_posted_ids aevs) \<longrightarrow>
      (\<exists>r. map_of (app_tasks (app_state (app_exec_events aevs app_system_init))) tid = Some r
         \<and> app_get_task tid (app_state (app_exec_events aevs app_system_init))
             = Inr \<lparr>ts_task_id = tid, ts_status = status r, ts_result = result r,
                    ts_error = error r\<rparr>))"
proof -
  have a: "map_of (tasks (srv (exec_events evs system_init))) tid = None
             \<longleftrightarrow> tid \<notin> set (posted_ids evs)"
    by (simp add: map_of_None_iff server_store_keys)
  have b: "map_of (app_tasks (app_state (app_exec_events aevs app_system_init))) tid = None
             \<longleftrightarrow> tid \<notin> set (app_posted_ids aevs)"
    by (simp add: map_of_None_iff app_store_keys)
  show ?thesis
    using a b by (auto simp: get_task_def app_get_task_def split: option.splits)
qed

text \<open>The lookup after one submission: the identifier returned, and another one.\<close>

theorem get_task_not_found_witness:
  "''t1'' \<in> set (posted_ids [Post go_request ''t1''])
   \<and> ''t2'' \<notin> set (posted_ids [Post go_request ''t1''])
   \<and> ''t1'' \<in> set (app_posted_ids [APost go_request ''t1''])
   \<and> ''t2'' \<notin> set (app_posted_ids [APost go_request ''t1''])
   \<and> get_task ''t2'' (srv (exec_events [Post go_request ''t1''] system_init))
       = Inl (HTTPException 404 ''Task not found'')
   \<and> get_task ''t1'' (srv (exec_events [Post go_request ''t1''] system_init))
       = Inr \<lparr>ts_task_id = ''t1'', ts_status = ''pending'', ts_result = None, ts_error = None\<rparr>
   \<and> app_get_task ''t2'' (app_state (app_exec_events [APost go_request ''t1''] app_system_init))
       = Inl (HTTPException 404 ''Task not found'')
   \<and> app_get_task ''t1'' (app_state (app_exec_events [APost go_request ''t1''] app_system_init))
       = Inr \<lparr>ts_task_id = ''t1'', ts_status = ''pending'', ts_result = None, ts_error = None\<rparr>"
  using get_task_not_found_iff_never_posted [of "''t2''" "[Post go_request ''t1'']" "[APost go_request ''t1'']"]
        get_task_not_found_iff_never_posted [of "''t1''" "[Post go_request ''t1'']" "[APost go_request ''t1'']"]
  by (simp add: exec_events_def system_init_def server_init_def create_task_def
      app_exec_events_def app_system_init_def app_init_def app_create_task_def)



section \<open>Instruction resolution\<close>

lemma default_task_nonempty: "default_task \<noteq> []"
  by (simp add: default_task_def)

text \<open>
  C10. A submission whose \<^verbatim>\<open>custom_task\<close> is the empty string gets the built-in
  instruction, which is not the empty string: in \<^verbatim>\<open>server.py\<close> it is the argument of
  the scheduled \<^verbatim>\<open>run_task\<close>, in \<^verbatim>\<open>app.py\<close> the \<^verbatim>\<open>"task"\<close> entry of the new record,
  which \<^verbatim>\<open>_async_run_task\<close> hands to the agent.
\<close>

theorem empty_custom_task_gets_default:
  "final_task \<lparr>req_task = t, custom_task = Some ''''\<rparr> = default_task
   \<and> default_task \<noteq> ''''
   \<and> fst (snd (create_task uid \<lparr>req_task = t, custom_task = Some ''''\<rparr> bg s))
       = bg @ [(uid, default_task)]
   \<and> map_of (app_tasks (snd (snd
         (app_create_task uid \<lparr>req_task = t, custom_task = Some ''''\<rparr> bg' a)))) uid
       = Some \<lparr>status = ''pending'', result = None, error = None, task = default_task\<rparr>"
  by (simp add: final_task_def create_task_def app_create_task_def default_task_nonempty
      update_conv')

section \<open>Failed browser start\<close>

text \<open>
  C3. From a cold provisioner, a \<^verbatim>\<open>get_browser\<close> whose session start times out raises
  the 503 exception and leaves the session it built in \<^verbatim>\<open>browser_session\<close>; the next
  \<^verbatim>\<open>get_browser\<close> returns that session and builds nothing.
\<close>

theorem get_browser_timeout_stays_cached:
  "get_browser (env_ok\<lparr>start := Some TimeoutError\<rparr>) server_init
     = (Inl (HTTPException 503 ''Browser startup timeout''),
        server_init\<lparr>browser_session := Some 0, sessions_made := 1\<rparr>)
   \<and> get_browser env_ok (server_init\<lparr>browser_session := Some 0, sessions_made := 1\<rparr>)
     = (Inr (Some 0), server_init\<lparr>browser_session := Some 0, sessions_made := 1\<rparr>)"
  by (simp add: get_browser_def get_browser_enter_def get_browser_resume_def env_ok_def
      server_init_def browser_failure_def)

section \<open>A whole execution of a runner\<close>

text \<open>
  On a record that exists, \<^verbatim>\<open>run_task\<close> returns after at most three segments, and the
  record then tells what the \<^verbatim>\<open>try\<close> block met: the first exception, stringified, or
  the agent's result. The provisioner and the agent never read the store.
\<close>

lemma fail_task_present:
  "map_of (tasks s) tid = Some r \<Longrightarrow>
     fail_task tid x s
       = (Finished, s\<lparr>tasks := AList.update tid (outcome_rec r (Inl x)) (tasks s)\<rparr>)"
  by (simp add: fail_task_def outcome_rec_def)

lemma run_task_save_present:
  "map_of (tasks s) tid = Some r \<Longrightarrow>
     run_task_save e tid a s
       = (Finished,
          s\<lparr>tasks := AList.update tid
               (outcome_rec r (case run e a of Raised x \<Rightarrow> Inl x | Returned res \<Rightarrow> Inr res))
               (tasks s)\<rparr>)"
  by (simp add: run_task_save_def fail_task_present outcome_rec_def split: run_outcome.splits)

lemma agent_phase:
  assumes "map_of (tasks s) tid = Some r"
    and "run_task_agent e tid tx b s = (p, s')"
    and "run_task_step e tid tx p s' = (p', s'')"
  shows "p' = Finished \<and> map_of (tasks s'') tid = Some (outcome_rec r (attempt_agent e tx b s))"
proof -
  obtain v s1 where g: "get_llm e s = (v, s1)" by (cases "get_llm e s")
  then have t1: "tasks s1 = tasks s" using get_llm_tasks [of e s] by simp
  then have pr: "map_of (tasks s1) tid = Some r" using assms(1) by simp
  show ?thesis
  proof (cases v)
    case (Inl x)
    then have "run_task_agent e tid tx b s = fail_task tid x s1"
      using g by (simp add: run_task_agent_def)
    with assms(2) fail_task_present [OF pr, of x]
    have "p = Finished" "s' = s1\<lparr>tasks := AList.update tid (outcome_rec r (Inl x)) (tasks s1)\<rparr>"
      by simp_all
    moreover have "attempt_agent e tx b s = Inl x"
      using g Inl by (simp add: attempt_agent_def)
    ultimately show ?thesis using assms(3) by (auto simp: update_conv')
  next
    case (Inr llm)
    define a where "a = \<lparr>agent_task = tx, agent_llm = llm, agent_browser = b\<rparr>"
    show ?thesis
    proof (cases "import_agent e")
      case (Some x)
      then have "run_task_agent e tid tx b s = fail_task tid x s1"
        using g Inr by (simp add: run_task_agent_def)
      with assms(2) fail_task_present [OF pr, of x]
      have "p = Finished" "s' = s1\<lparr>tasks := AList.update tid (outcome_rec r (Inl x)) (tasks s1)\<rparr>"
        by simp_all
      moreover have "attempt_agent e tx b s = Inl x"
        using g Inr Some by (simp add: attempt_agent_def)
      ultimately show ?thesis using assms(3) by (auto simp: update_conv')
    next
      case None
      show ?thesis
      proof (cases "make_agent e a")
        case (Some x)
        then have "run_task_agent e tid tx b s = fail_task tid x s1"
          using g Inr None by (simp add: run_task_agent_def a_def)
        with assms(2) fail_task_present [OF pr, of x]
        have "p = Finished" "s' = s1\<lparr>tasks := AList.update tid (outcome_rec r (Inl x)) (tasks s1)\<rparr>"
          by simp_all
        moreover have "attempt_agent e tx b s = Inl x"
          using g Inr None Some by (simp add: attempt_agent_def a_def)
        ultimately show ?thesis using assms(3) by (auto simp: update_conv')
      next
        case na: None
        then have "run_task_agent e tid tx b s = (AwaitRun a, s1)"
          using g Inr None by (simp add: run_task_agent_def a_def)
        with assms(2) have ps: "p = AwaitRun a" "s' = s1" by simp_all
        have att: "attempt_agent e tx b s
                     = (case run e a of Raised x \<Rightarrow> Inl x | Returned res \<Rightarrow> Inr res)"
          using g Inr None na by (simp add: attempt_agent_def a_def)
        from assms(3) ps run_task_save_present [OF pr, of e a]
        show ?thesis by (auto simp: att update_conv')
      qed
    qed
  qed
qed

lemma outcome_rec_status: "outcome_rec (r\<lparr>status := x\<rparr>) v = outcome_rec r v"
  by (simp add: outcome_rec_def split: sum.splits)

lemma get_browser_enter_indep:
  "get_browser_enter e (s\<lparr>tasks := t\<rparr>)
     = (case get_browser_enter e s of (v, s') \<Rightarrow> (v, s'\<lparr>tasks := t\<rparr>))"
  by (simp add: get_browser_enter_def split: option.splits)

lemma get_browser_resume_indep:
  "get_browser_resume e (s\<lparr>tasks := t\<rparr>)
     = (case get_browser_resume e s of (v, s') \<Rightarrow> (v, s'\<lparr>tasks := t\<rparr>))"
  by (simp add: get_browser_resume_def split: option.splits)

lemma get_browser_indep:
  "get_browser e (s\<lparr>tasks := t\<rparr>)
     = (case get_browser e s of (v, s') \<Rightarrow> (v, s'\<lparr>tasks := t\<rparr>))"
  by (simp add: get_browser_def get_browser_enter_indep get_browser_resume_indep
      split: prod.splits outcome.splits)

lemma get_llm_indep:
  "get_llm e (s\<lparr>tasks := t\<rparr>) = (case get_llm e s of (v, s') \<Rightarrow> (v, s'\<lparr>tasks := t\<rparr>))"
  by (simp add: get_llm_def split: option.splits)

lemma attempt_agent_indep: "attempt_agent e tx b (s\<lparr>tasks := t\<rparr>) = attempt_agent e tx b s"
  by (simp add: attempt_agent_def get_llm_indep split: prod.splits sum.splits)

lemma attempt_indep: "attempt e tx (s\<lparr>tasks := t\<rparr>) = attempt e tx s"
  by (simp add: attempt_def get_browser_indep attempt_agent_indep split: prod.splits sum.splits)

lemma run_task_running:
  assumes pr: "map_of (tasks s) tid = Some r"
  shows "fst (run_task e tid tx s) = Finished
       \<and> map_of (tasks (snd (run_task e tid tx s))) tid = Some (outcome_rec r (attempt e tx s))"
proof -
  define sr where "sr = s\<lparr>tasks := AList.update tid (r\<lparr>status := ''running''\<rparr>) (tasks s)\<rparr>"
  have att: "attempt e tx sr = attempt e tx s" by (simp add: sr_def attempt_indep)
  obtain o1 s2 where gbe: "get_browser_enter e sr = (o1, s2)" by (cases "get_browser_enter e sr")
  have "tasks s2 = tasks sr" using gbe get_browser_enter_tasks [of e sr] by simp
  then have p2: "map_of (tasks s2) tid = Some (r\<lparr>status := ''running''\<rparr>)"
    by (simp add: sr_def update_conv')
  have step0: "run_task_step e tid tx Fresh s
      = (case o1 of
           Raise x \<Rightarrow> fail_task tid x s2
         | Return b \<Rightarrow> run_task_agent e tid tx b s2
         | Await \<Rightarrow> (AwaitStart, s2))"
    using pr gbe by (simp add: sr_def [symmetric] split: outcome.splits)
  show ?thesis
  proof (cases o1)
    case (Raise x)
    have "attempt e tx sr = Inl x"
      using gbe Raise by (simp add: attempt_def get_browser_def)
    moreover have "run_task e tid tx s = fail_task tid x s2"
      using step0 Raise fail_task_present [OF p2, of x] by (simp add: run_task_def)
    ultimately show ?thesis
      using fail_task_present [OF p2, of x] att
      by (simp add: update_conv' outcome_rec_status)
  next
    case (Return b)
    obtain p s' where ag: "run_task_agent e tid tx b s2 = (p, s')"
      by (cases "run_task_agent e tid tx b s2")
    obtain p' s'' where st: "run_task_step e tid tx p s' = (p', s'')"
      by (cases "run_task_step e tid tx p s'")
    from agent_phase [OF p2 ag st]
    have fin: "p' = Finished"
      "map_of (tasks s'') tid = Some (outcome_rec r (attempt_agent e tx b s2))"
      by (simp_all add: outcome_rec_status)
    have "attempt e tx sr = attempt_agent e tx b s2"
      using gbe Return by (simp add: attempt_def get_browser_def)
    moreover have "run_task e tid tx s = (Finished, s'')"
      using step0 Return ag st fin(1) by (simp add: run_task_def)
    ultimately show ?thesis using fin(2) att by simp
  next
    case Await
    obtain v s3 where gbr: "get_browser_resume e s2 = (v, s3)"
      by (cases "get_browser_resume e s2")
    then have s3: "s3 = s2" using get_browser_resume_state [of e s2] by simp
    show ?thesis
    proof (cases v)
      case (Inl x)
      have "attempt e tx sr = Inl x"
        using gbe Await gbr Inl by (simp add: attempt_def get_browser_def)
      moreover have "run_task e tid tx s = fail_task tid x s2"
        using step0 Await gbr s3 Inl fail_task_present [OF p2, of x] by (simp add: run_task_def)
      ultimately show ?thesis
        using fail_task_present [OF p2, of x] att
        by (simp add: update_conv' outcome_rec_status)
    next
      case (Inr b)
      obtain p s' where ag: "run_task_agent e tid tx b s2 = (p, s')"
        by (cases "run_task_agent e tid tx b s2")
      obtain p' s'' where st: "run_task_step e tid tx p s' = (p', s'')"
        by (cases "run_task_step e tid tx p s'")
      from agent_phase [OF p2 ag st]
      have fin: "p' = Finished"
        "map_of (tasks s'') tid = Some (outcome_rec r (attempt_agent e tx b s2))"
        by (simp_all add: outcome_rec_status)
      have "attempt e tx sr = attempt_agent e tx b s2"
        using gbe Await gbr s3 Inr by (simp add: attempt_def get_browser_def)
      moreover have "run_task e tid tx s = (Finished, s'')"
        using step0 Await gbr s3 Inr ag st fin(1) by (simp add: run_task_def)
      ultimately show ?thesis using fin(2) att by simp
    qed
  qed
qed

text \<open>
  The same for \<^verbatim>\<open>_async_run_task\<close>, which returns after at most four segments.
\<close>

lemma app_fail_task_present:
  "map_of (app_tasks s) tid = Some r \<Longrightarrow>
     app_fail_task tid x s
       = (AFinished, s\<lparr>app_tasks := AList.update tid (app_failed r x) (app_tasks s)\<rparr>)"
  by (simp add: app_fail_task_def app_failed_def)

lemma app_step_fresh:
  assumes "map_of (app_tasks s) tid = Some r"
  shows "async_run_task_step e tid AFresh s
     = (case first_some [app_imports e, app_make_profile e, app_make_session e] of
          Some x \<Rightarrow>
            (AFinished, s\<lparr>app_tasks := AList.update tid (app_failed r x) (app_tasks s)\<rparr>)
        | None \<Rightarrow>
            (AAwaitStart,
             s\<lparr>app_tasks := AList.update tid (r\<lparr>status := ''running''\<rparr>) (app_tasks s)\<rparr>))"
  using assms
  by (simp add: app_fail_task_def app_failed_def update_conv' Let_def split: option.splits)

lemma app_step_start:
  assumes "map_of (app_tasks s) tid = Some r"
  shows "async_run_task_step e tid AAwaitStart s
     = (case first_some [app_start e, app_make_llm e, app_make_agent e (task r)] of
          Some x \<Rightarrow>
            (AFinished, s\<lparr>app_tasks := AList.update tid (app_failed r x) (app_tasks s)\<rparr>)
        | None \<Rightarrow> (AAwaitRun (task r), s))"
  using assms
  by (simp add: app_fail_task_def app_failed_def split: option.splits)

lemma app_step_run:
  assumes "map_of (app_tasks s) tid = Some r"
  shows "async_run_task_step e tid (AAwaitRun t) s
     = (case app_run e t of
          Some x \<Rightarrow>
            (AFinished, s\<lparr>app_tasks := AList.update tid (app_failed r x) (app_tasks s)\<rparr>)
        | None \<Rightarrow>
            (AAwaitClose,
             s\<lparr>app_tasks := AList.update tid
                  (r\<lparr>status := ''completed'', result := Some [(''success'', PBool True)]\<rparr>)
                  (app_tasks s)\<rparr>))"
  using assms
  by (simp add: app_fail_task_def app_failed_def split: option.splits)

lemma app_step_close:
  assumes "map_of (app_tasks s) tid = Some r"
  shows "async_run_task_step e tid AAwaitClose s
     = (case app_close e of
          Some x \<Rightarrow>
            (AFinished, s\<lparr>app_tasks := AList.update tid (app_failed r x) (app_tasks s)\<rparr>)
        | None \<Rightarrow> (AFinished, s))"
  using assms
  by (simp add: app_fail_task_def app_failed_def split: option.splits)

lemma async_run_task_total:
  assumes pr: "map_of (app_tasks s) tid = Some r"
  shows "fst (async_run_task e tid s) = AFinished
       \<and> (\<exists>r'. map_of (app_tasks (snd (async_run_task e tid s))) tid = Some r'
            \<and> task r' = task r
            \<and> (case app_attempt e (task r) of
                  Some x \<Rightarrow> status r' = ''failed'' \<and> error r' = Some (str_exc x)
                | None \<Rightarrow> status r' = ''completed'' \<and> error r' = error r
                           \<and> result r' = Some [(''success'', PBool True)]))"
proof (cases "first_some [app_imports e, app_make_profile e, app_make_session e]")
  case (Some x)
  then have a: "app_attempt e (task r) = Some x"
    by (auto simp: app_attempt_def split: option.splits)
  have "async_run_task e tid s
          = (AFinished, s\<lparr>app_tasks := AList.update tid (app_failed r x) (app_tasks s)\<rparr>)"
    using app_step_fresh [OF pr, of e] Some by (simp add: async_run_task_def)
  then show ?thesis using a by (simp add: update_conv' app_failed_def)
next
  case n0: None
  define s1 where
    "s1 = s\<lparr>app_tasks := AList.update tid (r\<lparr>status := ''running''\<rparr>) (app_tasks s)\<rparr>"
  define r1 where "r1 = r\<lparr>status := ''running''\<rparr>"
  have p1: "map_of (app_tasks s1) tid = Some r1" by (simp add: s1_def r1_def update_conv')
  have st0: "async_run_task_step e tid AFresh s = (AAwaitStart, s1)"
    using app_step_fresh [OF pr, of e] n0 by (simp add: s1_def)
  have t1: "task r1 = task r" by (simp add: r1_def)
  show ?thesis
  proof (cases "first_some [app_start e, app_make_llm e, app_make_agent e (task r)]")
    case (Some x)
    then have a: "app_attempt e (task r) = Some x"
      using n0 by (auto simp: app_attempt_def split: option.splits)
    have "async_run_task e tid s
            = (AFinished, s1\<lparr>app_tasks := AList.update tid (app_failed r1 x) (app_tasks s1)\<rparr>)"
      using st0 app_step_start [OF p1, of e] Some t1 by (simp add: async_run_task_def)
    then show ?thesis using a by (simp add: update_conv' app_failed_def r1_def)
  next
    case n1: None
    have st1: "async_run_task_step e tid AAwaitStart s1 = (AAwaitRun (task r), s1)"
      using app_step_start [OF p1, of e] n1 t1 by simp
    show ?thesis
    proof (cases "app_run e (task r)")
      case (Some x)
      then have a: "app_attempt e (task r) = Some x"
        using n0 n1 by (auto simp: app_attempt_def split: option.splits)
      have "async_run_task e tid s
              = (AFinished, s1\<lparr>app_tasks := AList.update tid (app_failed r1 x) (app_tasks s1)\<rparr>)"
        using st0 st1 app_step_run [OF p1, of e "task r"] Some by (simp add: async_run_task_def)
      then show ?thesis using a by (simp add: update_conv' app_failed_def r1_def)
    next
      case n2: None
      define r2 where
        "r2 = r1\<lparr>status := ''completed'', result := Some [(''success'', PBool True)]\<rparr>"
      define s2 where "s2 = s1\<lparr>app_tasks := AList.update tid r2 (app_tasks s1)\<rparr>"
      have p2: "map_of (app_tasks s2) tid = Some r2" by (simp add: s2_def update_conv')
      have st2: "async_run_task_step e tid (AAwaitRun (task r)) s1 = (AAwaitClose, s2)"
        using app_step_run [OF p1, of e "task r"] n2 by (simp add: s2_def r2_def)
      show ?thesis
      proof (cases "app_close e")
        case (Some x)
        then have a: "app_attempt e (task r) = Some x"
          using n0 n1 n2 by (auto simp: app_attempt_def split: option.splits)
        have "async_run_task e tid s
                = (AFinished, s2\<lparr>app_tasks := AList.update tid (app_failed r2 x) (app_tasks s2)\<rparr>)"
          using st0 st1 st2 app_step_close [OF p2, of e] Some by (simp add: async_run_task_def)
        then show ?thesis using a by (simp add: update_conv' app_failed_def r2_def r1_def)
      next
        case n3: None
        then have a: "app_attempt e (task r) = None"
          using n0 n1 n2 by (auto simp: app_attempt_def split: option.splits)
        have "async_run_task e tid s = (AFinished, s2)"
          using st0 st1 st2 app_step_close [OF p2, of e] n3 by (simp add: async_run_task_def)
        then show ?thesis using a p2 by (simp add: r2_def r1_def)
      qed
    qed
  qed
qed

section \<open>Failures of an execution\<close>

text \<open>
  C2, as the code has it. On an identifier that is in the store, \<^verbatim>\<open>run_task\<close> of
  \<^verbatim>\<open>server.py\<close> and \<^verbatim>\<open>_async_run_task\<close> of \<^verbatim>\<open>app.py\<close> always return normally; the
  first exception met by resource acquisition, by the construction of the agent or by
  its run is recorded as status \<^verbatim>\<open>failed\<close> with \<^verbatim>\<open>error = str(e)\<close>, and without any
  exception the record is \<^verbatim>\<open>completed\<close>: it is never left at \<^verbatim>\<open>running\<close>.
\<close>

theorem runner_records_failure:
  "(map_of (tasks s) tid = Some r \<longrightarrow>
      fst (run_task e tid tx s) = Finished
      \<and> map_of (tasks (snd (run_task e tid tx s))) tid
          = Some (case attempt e tx s of
                    Inl x \<Rightarrow> r\<lparr>status := ''failed'', error := Some (str_exc x)\<rparr>
                  | Inr res \<Rightarrow>
                      r\<lparr>status := ''completed'',
                        result := Some [(''success'', PBool True), (''usage'', usage_of res)]\<rparr>))
   \<and> (map_of (app_tasks s') tid' = Some r' \<longrightarrow>
      fst (async_run_task e' tid' s') = AFinished
      \<and> (\<exists>r''. map_of (app_tasks (snd (async_run_task e' tid' s'))) tid' = Some r''
            \<and> (case app_attempt e' (task r') of
                  Some x \<Rightarrow> status r'' = ''failed'' \<and> error r'' = Some (str_exc x)
                | None \<Rightarrow> status r'' = ''completed'' \<and> error r'' = error r')))"
proof (intro conjI impI)
  assume pr: "map_of (tasks s) tid = Some r"
  from run_task_running [OF pr, of e tx]
  show "fst (run_task e tid tx s) = Finished" by simp
  from run_task_running [OF pr, of e tx]
  show "map_of (tasks (snd (run_task e tid tx s))) tid
          = Some (case attempt e tx s of
                    Inl x \<Rightarrow> r\<lparr>status := ''failed'', error := Some (str_exc x)\<rparr>
                  | Inr res \<Rightarrow>
                      r\<lparr>status := ''completed'',
                        result := Some [(''success'', PBool True), (''usage'', usage_of res)]\<rparr>)"
    by (simp add: outcome_rec_def)
next
  assume pr: "map_of (app_tasks s') tid' = Some r'"
  from async_run_task_total [OF pr, of e']
  show "fst (async_run_task e' tid' s') = AFinished" by simp
  from async_run_task_total [OF pr, of e']
  show "\<exists>r''. map_of (app_tasks (snd (async_run_task e' tid' s'))) tid' = Some r''
            \<and> (case app_attempt e' (task r') of
                  Some x \<Rightarrow> status r'' = ''failed'' \<and> error r'' = Some (str_exc x)
                | None \<Rightarrow> status r'' = ''completed'' \<and> error r'' = error r')"
    by (auto split: option.splits)
qed

text \<open>
  A browser start that times out in \<^verbatim>\<open>server.py\<close>, and a model client that cannot be
  built in \<^verbatim>\<open>app.py\<close>.
\<close>

theorem runner_records_failure_witness:
  "map_of (tasks pending_server) ''t1'' = Some \<lparr>status = ''pending'', result = None, error = None\<rparr>
   \<and> map_of (app_tasks pending_go) ''t1''
       = Some \<lparr>status = ''pending'', result = None, error = None, task = ''go''\<rparr>
   \<and> attempt (env_ok\<lparr>start := Some TimeoutError\<rparr>) ''go'' pending_server
       = Inl (HTTPException 503 ''Browser startup timeout'')
   \<and> app_attempt (app_env_ok\<lparr>app_make_llm := Some (Exception ''no key'')\<rparr>) ''go''
       = Some (Exception ''no key'')
   \<and> fst (run_task (env_ok\<lparr>start := Some TimeoutError\<rparr>) ''t1'' ''go'' pending_server) = Finished
   \<and> map_of (tasks (snd (run_task (env_ok\<lparr>start := Some TimeoutError\<rparr>) ''t1'' ''go''
         pending_server))) ''t1''
       = Some \<lparr>status = ''failed'', result = None,
               error = Some (str_exc (HTTPException 503 ''Browser startup timeout''))\<rparr>
   \<and> fst (async_run_task (app_env_ok\<lparr>app_make_llm := Some (Exception ''no key'')\<rparr>) ''t1''
         pending_go) = AFinished
   \<and> map_of (app_tasks (snd (async_run_task
         (app_env_ok\<lparr>app_make_llm := Some (Exception ''no key'')\<rparr>) ''t1'' pending_go))) ''t1''
       = Some \<lparr>status = ''failed'', result = None, error = Some ''no key'', task = ''go''\<rparr>"
proof -
  have a: "attempt (env_ok\<lparr>start := Some TimeoutError\<rparr>) ''go'' pending_server
       = Inl (HTTPException 503 ''Browser startup timeout'')"
    by (simp add: attempt_def get_browser_def get_browser_enter_def get_browser_resume_def
        env_ok_def pending_server_def server_init_def browser_failure_def)
  have b: "app_attempt (app_env_ok\<lparr>app_make_llm := Some (Exception ''no key'')\<rparr>) ''go''
       = Some (Exception ''no key'')"
    by (simp add: app_attempt_def app_env_ok_def)
  have c: "map_of (tasks pending_server) ''t1''
             = Some \<lparr>status = ''pending'', result = None, error = None\<rparr>"
    by (simp add: pending_server_def)
  have d: "map_of (app_tasks pending_go) ''t1''
       = Some \<lparr>status = ''pending'', result = None, error = None, task = ''go''\<rparr>"
    by (simp add: pending_go_def)
  have e: "map_of (app_tasks (snd (async_run_task
         (app_env_ok\<lparr>app_make_llm := Some (Exception ''no key'')\<rparr>) ''t1'' pending_go))) ''t1''
       = Some \<lparr>status = ''failed'', result = None, error = Some ''no key'', task = ''go''\<rparr>"
    by (simp add: async_run_task_def app_env_ok_def pending_go_def app_fail_task_def)
  show ?thesis
    using runner_records_failure [where s = pending_server and tid = "''t1''" and tx = "''go''"
        and e = "env_ok\<lparr>start := Some TimeoutError\<rparr>"
        and r = "\<lparr>status = ''pending'', result = None, error = None\<rparr>"
        and s' = pending_go and tid' = "''t1''"
        and e' = "app_env_ok\<lparr>app_make_llm := Some (Exception ''no key'')\<rparr>"
        and r' = "\<lparr>status = ''pending'', result = None, error = None, task = ''go''\<rparr>"]
      a b c d e
    by simp
qed

text \<open>
  The recorded error is the string of the exception, which can be empty: in
  \<^verbatim>\<open>app.py\<close> a \<^verbatim>\<open>browser.start()\<close> that raises \<^verbatim>\<open>asyncio.TimeoutError\<close> ends at
  \<^verbatim>\<open>failed\<close> with the error \<^verbatim>\<open>""\<close>.
\<close>

theorem app_timeout_gives_empty_error:
  "async_run_task (app_env_ok\<lparr>app_start := Some TimeoutError\<rparr>) ''t1''
     \<lparr>app_tasks = [(''t1'', \<lparr>status = ''pending'', result = None, error = None, task = ''go''\<rparr>)]\<rparr>
   = (AFinished,
      \<lparr>app_tasks = [(''t1'', \<lparr>status = ''failed'', result = None,
          error = Some '''', task = ''go''\<rparr>)]\<rparr>)"
  by (simp add: async_run_task_def app_env_ok_def app_fail_task_def)

section \<open>Success of an execution\<close>

lemma usage_of_cases: "usage_of res = PNone \<or> (\<exists>d. usage_of res = PDict d)"
  by (cases res rule: usage_of.cases) simp_all

text \<open>
  C6, as the code has it. When \<^verbatim>\<open>agent.run()\<close> returns, \<^verbatim>\<open>run_task\<close> of \<^verbatim>\<open>server.py\<close>
  marks the record \<^verbatim>\<open>completed\<close> with the result
  \<^verbatim>\<open>{"success": True, "usage": ...}\<close>, the usage being the dumped metrics or \<^verbatim>\<open>None\<close>;
  \<^verbatim>\<open>_async_run_task\<close> of \<^verbatim>\<open>app.py\<close> marks it \<^verbatim>\<open>completed\<close> with the result
  \<^verbatim>\<open>{"success": True}\<close> and goes on to close the browser.
\<close>

theorem success_marks_completed:
  "(map_of (tasks s) tid = Some r \<and> run e a = Returned res \<longrightarrow>
      run_task_step e tid tx (AwaitRun a) s
        = (Finished,
           s\<lparr>tasks := AList.update tid
                (r\<lparr>status := ''completed'',
                   result := Some [(''success'', PBool True), (''usage'', usage_of res)]\<rparr>)
                (tasks s)\<rparr>)
      \<and> (usage_of res = PNone \<or> (\<exists>d. usage_of res = PDict d)))
   \<and> (map_of (app_tasks s') tid' = Some r' \<and> app_run e' t = None \<longrightarrow>
      async_run_task_step e' tid' (AAwaitRun t) s'
        = (AAwaitClose,
           s'\<lparr>app_tasks := AList.update tid'
                (r'\<lparr>status := ''completed'', result := Some [(''success'', PBool True)]\<rparr>)
                (app_tasks s')\<rparr>))"
  using usage_of_cases [of res] by (simp add: run_task_save_def)

text \<open>A run that returns, on the pending record of each server.\<close>

theorem success_marks_completed_witness:
  "map_of (tasks pending_server) ''t1'' = Some \<lparr>status = ''pending'', result = None, error = None\<rparr>
   \<and> run env_ok \<lparr>agent_task = ''go'', agent_llm = 0, agent_browser = Some 0\<rparr>
       = Returned (Truthy None)
   \<and> map_of (app_tasks pending_go) ''t1''
       = Some \<lparr>status = ''pending'', result = None, error = None, task = ''go''\<rparr>
   \<and> app_run app_env_ok ''go'' = None
   \<and> run_task_step env_ok ''t1'' ''go''
        (AwaitRun \<lparr>agent_task = ''go'', agent_llm = 0, agent_browser = Some 0\<rparr>) pending_server
       = (Finished, server_init\<lparr>tasks := [(''t1'', \<lparr>status = ''completed'',
            result = Some [(''success'', PBool True), (''usage'', PNone)], error = None\<rparr>)]\<rparr>)
   \<and> async_run_task_step app_env_ok ''t1'' (AAwaitRun ''go'') pending_go
       = (AAwaitClose, \<lparr>app_tasks = [(''t1'', \<lparr>status = ''completed'',
            result = Some [(''success'', PBool True)], error = None, task = ''go''\<rparr>)]\<rparr>)"
  using success_marks_completed [where s = pending_server and tid = "''t1''" and tx = "''go''" and e = env_ok
        and a = "\<lparr>agent_task = ''go'', agent_llm = 0, agent_browser = Some 0\<rparr>"
        and res = "Truthy None"
        and r = "\<lparr>status = ''pending'', result = None, error = None\<rparr>"
        and s' = pending_go and tid' = "''t1''" and e' = app_env_ok and t = "''go''"
        and r' = "\<lparr>status = ''pending'', result = None, error = None, task = ''go''\<rparr>"]
  by (simp add: pending_server_def pending_go_def env_ok_def app_env_ok_def server_init_def)

text \<open>
  The result that \<^verbatim>\<open>app.py\<close> stores on success has no \<^verbatim>\<open>usage\<close> entry.
\<close>

theorem app_result_has_no_usage:
  "async_run_task_step app_env_ok ''t1'' (AAwaitRun ''go'')
     \<lparr>app_tasks = [(''t1'', \<lparr>status = ''running'', result = None, error = None, task = ''go''\<rparr>)]\<rparr>
   = (AAwaitClose,
      \<lparr>app_tasks = [(''t1'', \<lparr>status = ''completed'', result = Some [(''success'', PBool True)],
          error = None, task = ''go''\<rparr>)]\<rparr>)
   \<and> map_of [(''success'', PBool True)] ''usage'' = None"
  by (simp add: app_env_ok_def)

section \<open>The instruction that reaches the agent\<close>

text \<open>
  \<^verbatim>\<open>run_task\<close> builds the agent from its argument \<^verbatim>\<open>task_text\<close>, and
  \<^verbatim>\<open>_async_run_task\<close> from the \<^verbatim>\<open>"task"\<close> entry of the record.
\<close>

lemma run_task_agent_text:
  "run_task_agent e tid tx b s = (AwaitRun a, s') \<Longrightarrow> agent_task a = tx"
  by (auto simp: run_task_agent_def fail_task_def Let_def
      split: prod.splits sum.splits option.splits)

lemma run_task_step_text:
  assumes "run_task_step e tid tx p s = (AwaitRun a, s')" "\<forall>a'. p \<noteq> AwaitRun a'"
  shows "agent_task a = tx"
proof (cases p)
  case Fresh
  show ?thesis
  proof (cases "map_of (tasks s) tid")
    case None
    with Fresh assms(1) show ?thesis by (simp add: fail_task_def)
  next
    case (Some r)
    obtain o1 s2 where gbe: "get_browser_enter e
        (s\<lparr>tasks := AList.update tid (r\<lparr>status := ''running''\<rparr>) (tasks s)\<rparr>) = (o1, s2)"
      by (cases "get_browser_enter e
        (s\<lparr>tasks := AList.update tid (r\<lparr>status := ''running''\<rparr>) (tasks s)\<rparr>)")
    with Fresh Some assms(1) show ?thesis
      by (cases o1) (auto simp: fail_task_def dest: run_task_agent_text split: option.splits)
  qed
next
  case AwaitStart
  obtain v s2 where gbr: "get_browser_resume e s = (v, s2)" by (cases "get_browser_resume e s")
  with AwaitStart assms(1) show ?thesis
    by (cases v) (auto simp: fail_task_def dest: run_task_agent_text split: option.splits)
next
  case (AwaitRun a')
  with assms(2) show ?thesis by simp
next
  case Finished
  with assms(1) show ?thesis by simp
next
  case (Crashed x)
  with assms(1) show ?thesis by simp
qed

lemma async_run_task_step_text:
  assumes "map_of (app_tasks s) tid = Some r" "async_run_task_step e tid AAwaitStart s = (AAwaitRun t, s')"
  shows "t = task r"
  using assms by (auto simp: app_fail_task_def split: option.splits)

text \<open>
  C9, as the code has it. A \<^verbatim>\<open>custom_task\<close> that is present and not empty is the
  instruction, verbatim; without \<^verbatim>\<open>custom_task\<close> it is the built-in text. It is the
  argument of the scheduled \<^verbatim>\<open>run_task\<close>, which builds the agent from it, and the
  \<^verbatim>\<open>"task"\<close> entry of the record of \<^verbatim>\<open>app.py\<close>, from which \<^verbatim>\<open>_async_run_task\<close> builds
  the agent.
\<close>

theorem nonempty_custom_task_verbatim:
  "(custom_task request = Some c \<and> c \<noteq> [] \<or> custom_task request = None \<and> c = default_task \<longrightarrow>
      final_task request = c
      \<and> fst (snd (create_task uid request bg s)) = bg @ [(uid, c)]
      \<and> map_of (app_tasks (snd (snd (app_create_task uid request abg s')))) uid
          = Some \<lparr>status = ''pending'', result = None, error = None, task = c\<rparr>)
   \<and> (run_task_step e uid c p sa = (AwaitRun a, sb) \<and> (\<forall>a'. p \<noteq> AwaitRun a') \<longrightarrow>
        agent_task a = c)
   \<and> (map_of (app_tasks sc) uid = Some r \<and> task r = c
        \<and> async_run_task_step e' uid AAwaitStart sc = (AAwaitRun t, sd) \<longrightarrow> t = c)"
proof (intro conjI impI)
  assume h: "custom_task request = Some c \<and> c \<noteq> [] \<or> custom_task request = None \<and> c = default_task"
  then show f: "final_task request = c" by (auto simp: final_task_def)
  from f show "fst (snd (create_task uid request bg s)) = bg @ [(uid, c)]"
    by (simp add: create_task_def)
  from f show "map_of (app_tasks (snd (snd (app_create_task uid request abg s')))) uid
          = Some \<lparr>status = ''pending'', result = None, error = None, task = c\<rparr>"
    by (simp add: app_create_task_def update_conv')
next
  assume "run_task_step e uid c p sa = (AwaitRun a, sb) \<and> (\<forall>a'. p \<noteq> AwaitRun a')"
  then show "agent_task a = c" using run_task_step_text by blast
next
  assume "map_of (app_tasks sc) uid = Some r \<and> task r = c
        \<and> async_run_task_step e' uid AAwaitStart sc = (AAwaitRun t, sd)"
  then show "t = c" using async_run_task_step_text by blast
qed

text \<open>
  A request with an instruction of its own, a request without one, and the segments of
  the two runners that build the agent.
\<close>

theorem nonempty_custom_task_verbatim_witness:
  "custom_task go_request = Some ''go to example.com'' \<and> ''go to example.com'' \<noteq> []
   \<and> custom_task \<lparr>req_task = ''default'', custom_task = None\<rparr> = None
   \<and> final_task go_request = ''go to example.com''
   \<and> fst (snd (create_task ''t1'' go_request [] server_init))
       = [(''t1'', ''go to example.com'')]
   \<and> final_task \<lparr>req_task = ''default'', custom_task = None\<rparr> = default_task
   \<and> fst (snd (create_task ''t1'' \<lparr>req_task = ''default'', custom_task = None\<rparr> [] server_init))
       = [(''t1'', default_task)]
   \<and> fst (run_task_step env_ok ''t1'' ''go'' Fresh warm_server)
       = AwaitRun \<lparr>agent_task = ''go'', agent_llm = 0, agent_browser = Some 0\<rparr>
   \<and> map_of (app_tasks pending_go) ''t1''
       = Some \<lparr>status = ''pending'', result = None, error = None, task = ''go''\<rparr>
   \<and> async_run_task_step app_env_ok ''t1'' AAwaitStart pending_go = (AAwaitRun ''go'', pending_go)"
proof -
  have g: "custom_task go_request = Some ''go to example.com'' \<and> ''go to example.com'' \<noteq> []"
    by (simp add: go_request_def)
  have n: "custom_task \<lparr>req_task = ''default'', custom_task = None\<rparr> = None"
    by simp
  have step: "run_task_step env_ok ''t1'' ''go'' Fresh warm_server
      = (AwaitRun \<lparr>agent_task = ''go'', agent_llm = 0, agent_browser = Some 0\<rparr>,
         snd (run_task_step env_ok ''t1'' ''go'' Fresh warm_server))"
    by (simp add: warm_server_def pending_server_def server_init_def env_ok_def
        get_browser_enter_def get_llm_def run_task_agent_def)
  have astep: "async_run_task_step app_env_ok ''t1'' AAwaitStart pending_go
      = (AAwaitRun ''go'', pending_go)"
    by (simp add: pending_go_def app_env_ok_def)
  have rec: "map_of (app_tasks pending_go) ''t1''
       = Some \<lparr>status = ''pending'', result = None, error = None, task = ''go''\<rparr>"
    by (simp add: pending_go_def)
  have a: "final_task go_request = ''go to example.com''
      \<and> fst (snd (create_task ''t1'' go_request [] server_init))
          = [(''t1'', ''go to example.com'')]"
    using nonempty_custom_task_verbatim [where request = go_request
        and c = "''go to example.com''" and uid = "''t1''" and bg = "[]" and s = server_init,
        THEN conjunct1] g
    by simp
  have b: "final_task \<lparr>req_task = ''default'', custom_task = None\<rparr> = default_task
      \<and> fst (snd (create_task ''t1'' \<lparr>req_task = ''default'', custom_task = None\<rparr> []
            server_init)) = [(''t1'', default_task)]"
    using nonempty_custom_task_verbatim [where
        request = "\<lparr>req_task = ''default'', custom_task = None\<rparr>"
        and c = default_task and uid = "''t1''" and bg = "[]" and s = server_init,
        THEN conjunct1] n
    by simp
  have c: "agent_task \<lparr>agent_task = ''go'', agent_llm = 0, agent_browser = Some 0\<rparr> = ''go''"
    using nonempty_custom_task_verbatim [where c = "''go''" and uid = "''t1''" and e = env_ok
        and p = Fresh and sa = warm_server
        and a = "\<lparr>agent_task = ''go'', agent_llm = 0, agent_browser = Some 0\<rparr>"
        and sb = "snd (run_task_step env_ok ''t1'' ''go'' Fresh warm_server)",
        THEN conjunct2, THEN conjunct1] step
    by simp
  have d: "(''go'' :: string) = ''go''"
    using nonempty_custom_task_verbatim [where c = "''go''" and uid = "''t1''"
        and sc = pending_go
        and r = "\<lparr>status = ''pending'', result = None, error = None, task = ''go''\<rparr>"
        and e' = app_env_ok and t = "''go''" and sd = pending_go,
        THEN conjunct2, THEN conjunct2] astep rec
    by simp
  have step': "fst (run_task_step env_ok ''t1'' ''go'' Fresh warm_server)
      = AwaitRun \<lparr>agent_task = ''go'', agent_llm = 0, agent_browser = Some 0\<rparr>"
    using step by (metis fst_conv)
  show ?thesis
    using g n a b c d step' astep rec
    by (simp del: run_task_step.simps async_run_task_step.simps)
qed

text \<open>
  A \<^verbatim>\<open>custom_task\<close> that is present but empty is not passed on: the scheduled
  \<^verbatim>\<open>run_task\<close> gets the built-in text.
\<close>

theorem empty_custom_task_not_verbatim:
  "fst (snd (create_task ''t1'' \<lparr>req_task = ''default'', custom_task = Some ''''\<rparr> [] server_init))
    = [(''t1'', default_task)] \<and> default_task \<noteq> ''''"
  by (simp add: final_task_def create_task_def default_task_nonempty)

section \<open>The records of \<^verbatim>\<open>server.py\<close>\<close>

text \<open>
  As long as \<^verbatim>\<open>uuid.uuid4()\<close> never repeats an identifier, every state that
  \<^verbatim>\<open>server.py\<close> reaches is sound. Hence, under every interleaving of requests and
  runner segments: a record that is \<^verbatim>\<open>completed\<close> or \<^verbatim>\<open>failed\<close> never changes again,
  every record is consistent, and no \<^verbatim>\<open>run_task\<close> coroutine is left by an exception.
\<close>

lemma run_task_agent_effect:
  assumes "map_of (tasks s) tid = Some r" "run_task_agent e tid tx b s = (p', s')"
  shows "(\<exists>a. p' = AwaitRun a) \<and> tasks s' = tasks s
       \<or> p' = Finished \<and> (\<exists>x. tasks s' = AList.update tid (outcome_rec r (Inl x)) (tasks s))"
proof -
  obtain v s1 where g: "get_llm e s = (v, s1)" by (cases "get_llm e s")
  then have t1: "tasks s1 = tasks s" using get_llm_tasks [of e s] by simp
  then have pr: "map_of (tasks s1) tid = Some r" using assms(1) by simp
  have f: "fail_task tid x s1
      = (Finished, s1\<lparr>tasks := AList.update tid (outcome_rec r (Inl x)) (tasks s1)\<rparr>)" for x
    by (rule fail_task_present [OF pr])
  from assms(2) g t1 f show ?thesis
    by (auto simp: run_task_agent_def Let_def split: sum.splits option.splits)
qed

lemma run_task_step_effect:
  assumes pr: "map_of (tasks s) tid = Some r" and ag: "agrees p r"
    and st: "run_task_step e tid tx p s = (p', s')"
  shows "\<exists>r'. tasks s' = AList.update tid r' (tasks s) \<and> agrees p' r'
           \<and> (consistent r \<longrightarrow> consistent r')
           \<and> (terminal (status r) \<longrightarrow> r' = r)"
proof (cases p)
  case Fresh
  define r1 where "r1 = r\<lparr>status := ''running''\<rparr>"
  define s1 where "s1 = s\<lparr>tasks := AList.update tid r1 (tasks s)\<rparr>"
  have nt: "\<not> terminal (status r)" "status r = ''pending''"
    using ag Fresh by (simp_all add: agrees_def terminal_def)
  obtain o1 s2 where gbe: "get_browser_enter e s1 = (o1, s2)" by (cases "get_browser_enter e s1")
  have t2: "tasks s2 = tasks s1" using gbe get_browser_enter_tasks [of e s1] by simp
  then have p2: "map_of (tasks s2) tid = Some r1" by (simp add: s1_def update_conv')
  have c1: "consistent r \<longrightarrow> consistent r1" using nt by (simp add: consistent_def r1_def)
  have step0: "run_task_step e tid tx Fresh s
      = (case o1 of
           Raise x \<Rightarrow> fail_task tid x s2
         | Return b \<Rightarrow> run_task_agent e tid tx b s2
         | Await \<Rightarrow> (AwaitStart, s2))"
    using pr gbe by (simp add: s1_def [symmetric] r1_def [symmetric] split: outcome.splits)
  show ?thesis
  proof (cases o1)
    case (Raise x)
    with step0 st Fresh fail_task_present [OF p2, of x]
    have "p' = Finished" "tasks s' = AList.update tid (outcome_rec r1 (Inl x)) (tasks s2)" by auto
    then have "tasks s' = AList.update tid (outcome_rec r1 (Inl x)) (tasks s)
        \<and> agrees p' (outcome_rec r1 (Inl x))
        \<and> (consistent r \<longrightarrow> consistent (outcome_rec r1 (Inl x)))"
      using t2 nt by (simp add: s1_def agrees_def terminal_def outcome_rec_def consistent_def r1_def)
    with nt show ?thesis by blast
  next
    case (Return b)
    with step0 st Fresh have "run_task_agent e tid tx b s2 = (p', s')" by simp
    from run_task_agent_effect [OF p2 this] show ?thesis
    proof
      assume "(\<exists>a. p' = AwaitRun a) \<and> tasks s' = tasks s2"
      then have "tasks s' = AList.update tid r1 (tasks s) \<and> agrees p' r1"
        using t2 by (auto simp: s1_def agrees_def r1_def)
      with c1 nt show ?thesis by blast
    next
      assume "p' = Finished \<and> (\<exists>x. tasks s' = AList.update tid (outcome_rec r1 (Inl x)) (tasks s2))"
      then obtain x where "p' = Finished"
        "tasks s' = AList.update tid (outcome_rec r1 (Inl x)) (tasks s2)" by blast
      then have "tasks s' = AList.update tid (outcome_rec r1 (Inl x)) (tasks s)
          \<and> agrees p' (outcome_rec r1 (Inl x))
          \<and> (consistent r \<longrightarrow> consistent (outcome_rec r1 (Inl x)))"
        using t2 nt by (simp add: s1_def agrees_def terminal_def outcome_rec_def consistent_def r1_def)
      with nt show ?thesis by blast
    qed
  next
    case Await
    with step0 st Fresh have "p' = AwaitStart" "s' = s2" by simp_all
    then have "tasks s' = AList.update tid r1 (tasks s) \<and> agrees p' r1"
      using t2 by (simp add: s1_def agrees_def r1_def)
    with c1 nt show ?thesis by blast
  qed
next
  case AwaitStart
  have nt: "\<not> terminal (status r)" "status r = ''running''"
    using ag AwaitStart by (simp_all add: agrees_def terminal_def)
  have same: "tasks s = AList.update tid r (tasks s)"
    using pr by (simp add: update_triv)
  obtain v s2 where gbr: "get_browser_resume e s = (v, s2)" by (cases "get_browser_resume e s")
  then have s2: "s2 = s" using get_browser_resume_state [of e s] by simp
  show ?thesis
  proof (cases v)
    case (Inl x)
    with st AwaitStart gbr s2 fail_task_present [OF pr, of x]
    have "p' = Finished" "tasks s' = AList.update tid (outcome_rec r (Inl x)) (tasks s)" by auto
    then have "tasks s' = AList.update tid (outcome_rec r (Inl x)) (tasks s)
        \<and> agrees p' (outcome_rec r (Inl x))
        \<and> (consistent r \<longrightarrow> consistent (outcome_rec r (Inl x)))"
      using nt by (simp add: agrees_def terminal_def outcome_rec_def consistent_def)
    with nt show ?thesis by blast
  next
    case (Inr b)
    with st AwaitStart gbr s2 have "run_task_agent e tid tx b s = (p', s')" by simp
    from run_task_agent_effect [OF pr this] show ?thesis
    proof
      assume "(\<exists>a. p' = AwaitRun a) \<and> tasks s' = tasks s"
      then have "tasks s' = AList.update tid r (tasks s) \<and> agrees p' r"
        using same nt by (auto simp: agrees_def)
      with nt show ?thesis by blast
    next
      assume "p' = Finished \<and> (\<exists>x. tasks s' = AList.update tid (outcome_rec r (Inl x)) (tasks s))"
      then obtain x where "p' = Finished"
        "tasks s' = AList.update tid (outcome_rec r (Inl x)) (tasks s)" by blast
      then have "tasks s' = AList.update tid (outcome_rec r (Inl x)) (tasks s)
          \<and> agrees p' (outcome_rec r (Inl x))
          \<and> (consistent r \<longrightarrow> consistent (outcome_rec r (Inl x)))"
        using nt by (simp add: agrees_def terminal_def outcome_rec_def consistent_def)
      with nt show ?thesis by blast
    qed
  qed
next
  case (AwaitRun a)
  have nt: "\<not> terminal (status r)" "status r = ''running''"
    using ag AwaitRun by (simp_all add: agrees_def terminal_def)
  define v where "v = (case run e a of Raised x \<Rightarrow> Inl x | Returned res \<Rightarrow> Inr res)"
  from st AwaitRun run_task_save_present [OF pr, of e a]
  have "p' = Finished" "tasks s' = AList.update tid (outcome_rec r v) (tasks s)"
    by (auto simp: v_def)
  then have "tasks s' = AList.update tid (outcome_rec r v) (tasks s)
      \<and> agrees p' (outcome_rec r v)
      \<and> (consistent r \<longrightarrow> consistent (outcome_rec r v))"
    using nt by (cases v) (simp_all add: agrees_def terminal_def outcome_rec_def consistent_def)
  with nt show ?thesis by blast
next
  case Finished
  have same: "tasks s = AList.update tid r (tasks s)"
    using pr by (simp add: update_triv)
  from st Finished have "p' = Finished" "s' = s" by simp_all
  with same ag Finished show ?thesis by auto
next
  case (Crashed x)
  with ag show ?thesis by (simp add: agrees_def)
qed

lemma sound_init: "sound system_init"
  by (simp add: sound_def system_init_def server_init_def)

lemma sound_post:
  assumes "sound sys" "uid \<notin> fst ` set (tasks (srv sys))"
  shows "sound (exec_event (Post request uid) sys)"
proof -
  let ?new = "\<lparr>status = ''pending'', result = None, error = None\<rparr>"
  have j: "jobs (exec_event (Post request uid) sys) = jobs sys @ [(uid, final_task request, Fresh)]"
    by (simp add: create_task_def)
  have t: "tasks (srv (exec_event (Post request uid) sys)) = AList.update uid ?new (tasks (srv sys))"
    by (simp add: create_task_def)
  have fresh: "uid \<notin> fst ` set (jobs sys)" using assms by (simp add: sound_def)
  have d: "distinct (map fst (jobs sys @ [(uid, final_task request, Fresh)]))"
    using assms(1) fresh by (simp add: sound_def)
  have k: "fst ` set (jobs sys @ [(uid, final_task request, Fresh)])
      = fst ` set (AList.update uid ?new (tasks (srv sys)))"
    using assms(1) by (simp add: sound_def dom_update)
  have r: "\<exists>r. map_of (AList.update uid ?new (tasks (srv sys)))
                  (fst ((jobs sys @ [(uid, final_task request, Fresh)]) ! n)) = Some r
              \<and> agrees (snd (snd ((jobs sys @ [(uid, final_task request, Fresh)]) ! n))) r
              \<and> consistent r"
    if "n < length (jobs sys @ [(uid, final_task request, Fresh)])" for n
  proof (cases "n < length (jobs sys)")
    case True
    then have "fst (jobs sys ! n) \<in> fst ` set (jobs sys)" by simp
    with fresh have ne: "fst (jobs sys ! n) \<noteq> uid" by auto
    from assms(1) True obtain r where
      "map_of (tasks (srv sys)) (fst (jobs sys ! n)) = Some r"
      "agrees (snd (snd (jobs sys ! n))) r" "consistent r"
      by (auto simp: sound_def)
    with True ne show ?thesis by (simp add: nth_append update_conv')
  next
    case False
    with that have "n = length (jobs sys)" by simp
    then show ?thesis
      by (simp add: nth_append update_conv' agrees_def consistent_def)
  qed
  from d k r show ?thesis unfolding sound_def j t by blast
qed

lemma sound_distinct: "sound sys \<Longrightarrow> distinct (map fst (jobs sys))"
  by (simp add: sound_def)

lemma sound_keys: "sound sys \<Longrightarrow> fst ` set (jobs sys) = fst ` set (tasks (srv sys))"
  by (simp add: sound_def)

lemma sound_job:
  assumes "sound sys" "j < length (jobs sys)"
  shows "\<exists>r. map_of (tasks (srv sys)) (fst (jobs sys ! j)) = Some r
              \<and> agrees (snd (snd (jobs sys ! j))) r \<and> consistent r"
proof -
  from assms(1) have "\<forall>j < length (jobs sys).
      \<exists>r. map_of (tasks (srv sys)) (fst (jobs sys ! j)) = Some r
           \<and> agrees (snd (snd (jobs sys ! j))) r \<and> consistent r"
    unfolding sound_def by (elim conjE)
  with assms(2) show ?thesis by (elim allE impE)
qed

lemma soundI:
  assumes "distinct (map fst (jobs sys))"
    and "fst ` set (jobs sys) = fst ` set (tasks (srv sys))"
    and "\<And>j. j < length (jobs sys) \<Longrightarrow>
           \<exists>r. map_of (tasks (srv sys)) (fst (jobs sys ! j)) = Some r
                \<and> agrees (snd (snd (jobs sys ! j))) r \<and> consistent r"
  shows "sound sys"
  unfolding sound_def using assms by (intro conjI allI impI)

lemma sound_resume:
  assumes "sound sys"
  shows "sound (exec_event (Resume i e) sys)"
proof (cases "i < length (jobs sys)")
  case False
  with assms show ?thesis by simp
next
  case True
  obtain tid tx p where job: "jobs sys ! i = (tid, tx, p)" by (cases "jobs sys ! i")
  obtain p' s' where st: "run_task_step e tid tx p (srv sys) = (p', s')"
    by (cases "run_task_step e tid tx p (srv sys)")
  from sound_job [OF assms True] job obtain r where r: "map_of (tasks (srv sys)) tid = Some r"
    "agrees p r" "consistent r"
    by auto
  from run_task_step_effect [OF r(1) r(2) st] r(3) obtain r' where
    r': "tasks s' = AList.update tid r' (tasks (srv sys))" "agrees p' r'" "consistent r'"
    by blast
  define sys' where "sys' = exec_event (Resume i e) sys"
  have j: "jobs sys' = (jobs sys)[i := (tid, tx, p')]"
    using True job st by (simp add: sys'_def)
  have t: "tasks (srv sys') = AList.update tid r' (tasks (srv sys))"
    using True job st r'(1) by (simp add: sys'_def)
  have "fst ((jobs sys) ! i) = tid" using job by simp
  then have mf: "map fst (jobs sys') = map fst (jobs sys)"
    unfolding j using True by (simp add: map_update list_update_same_conv)
  have d: "distinct (map fst (jobs sys'))"
    using sound_distinct [OF assms] mf by simp
  have "set (map fst (jobs sys')) = set (map fst (jobs sys))" using mf by simp
  then have k1: "fst ` set (jobs sys') = fst ` set (jobs sys)" by simp
  have "tid \<in> fst ` set (tasks (srv sys))"
    using r(1) by (rule map_of_Some_key)
  then have k2: "fst ` set (tasks (srv sys')) = fst ` set (tasks (srv sys))"
    unfolding t by (simp add: dom_update insert_absorb)
  have k: "fst ` set (jobs sys') = fst ` set (tasks (srv sys'))"
    using k1 k2 sound_keys [OF assms] by simp
  have rr: "\<exists>ra. map_of (tasks (srv sys')) (fst (jobs sys' ! n)) = Some ra
              \<and> agrees (snd (snd (jobs sys' ! n))) ra \<and> consistent ra"
    if "n < length (jobs sys')" for n
  proof (cases "n = i")
    case True
    with that r' show ?thesis unfolding j t by (simp add: update_conv')
  next
    case False
    from that have n: "n < length (jobs sys)" unfolding j by simp
    have "map fst (jobs sys) ! n \<noteq> map fst (jobs sys) ! i"
      using nth_eq_iff_index_eq [OF sound_distinct [OF assms], of n i] n True False by simp
    then have ne: "fst (jobs sys ! n) \<noteq> tid" using n True job by simp
    from sound_job [OF assms n] obtain ra where
      "map_of (tasks (srv sys)) (fst (jobs sys ! n)) = Some ra"
      "agrees (snd (snd (jobs sys ! n))) ra" "consistent ra"
      by blast
    with False ne show ?thesis unfolding j t by (simp add: update_conv')
  qed
  from d k rr have "sound sys'" by (rule soundI)
  then show ?thesis by (simp only: sys'_def)
qed

lemma sound_event:
  assumes "sound sys" "set (posted_ids [ev]) \<inter> fst ` set (tasks (srv sys)) = {}"
  shows "sound (exec_event ev sys)"
proof (cases ev)
  case (Post request uid)
  with assms(2) have "uid \<notin> fst ` set (tasks (srv sys))" by simp
  with assms(1) have "sound (exec_event (Post request uid) sys)" by (rule sound_post)
  then show ?thesis by (simp only: Post)
next
  case (Resume i e)
  from assms(1) have "sound (exec_event (Resume i e) sys)" by (rule sound_resume)
  then show ?thesis by (simp only: Resume)
qed (use assms(1) in simp_all)

lemma sound_events:
  assumes "distinct (posted_ids evs)"
  shows "sound (exec_events evs system_init)"
  using assms
proof (induction evs rule: rev_induct)
  case Nil
  then show ?case by (simp add: exec_events_def sound_init)
next
  case (snoc ev evs)
  have e: "exec_events (evs @ [ev]) system_init = exec_event ev (exec_events evs system_init)"
    by (simp add: exec_events_def)
  from snoc.prems have d: "distinct (posted_ids evs)"
    "set (posted_ids [ev]) \<inter> set (posted_ids evs) = {}"
    by (auto simp: posted_ids_append)
  from d(2) have "set (posted_ids [ev]) \<inter> fst ` set (tasks (srv (exec_events evs system_init))) = {}"
    by (simp only: server_store_keys)
  with snoc.IH [OF d(1)] show ?case unfolding e by (rule sound_event)
qed

lemma terminal_stays_event:
  assumes "sound sys" "set (posted_ids [ev]) \<inter> fst ` set (tasks (srv sys)) = {}"
    and "map_of (tasks (srv sys)) tid = Some r" "terminal (status r)"
  shows "map_of (tasks (srv (exec_event ev sys))) tid = Some r"
proof (cases ev)
  case (Post request uid)
  have "tid \<in> fst ` set (tasks (srv sys))" using assms(3) by (rule map_of_Some_key)
  with assms(2) Post have "uid \<noteq> tid" by auto
  with Post assms(3) show ?thesis by (simp add: create_task_def update_conv')
next
  case (Resume i e)
  show ?thesis
  proof (cases "i < length (jobs sys)")
    case False
    with Resume assms(3) show ?thesis by simp
  next
    case True
    obtain t tx p where job: "jobs sys ! i = (t, tx, p)" by (cases "jobs sys ! i")
    obtain p' s' where st: "run_task_step e t tx p (srv sys) = (p', s')"
      by (cases "run_task_step e t tx p (srv sys)")
    from sound_job [OF assms(1) True] job obtain ra where
      ra: "map_of (tasks (srv sys)) t = Some ra" "agrees p ra"
      by auto
    from run_task_step_effect [OF ra st] obtain r' where
      r': "tasks s' = AList.update t r' (tasks (srv sys))" "terminal (status ra) \<longrightarrow> r' = ra"
      by blast
    have "map_of (AList.update t r' (tasks (srv sys))) tid = Some r"
      using assms(3,4) ra(1) r'(2) by (cases "t = tid") (simp_all add: update_conv')
    with Resume True job st r'(1) show ?thesis by simp
  qed
qed (use assms(3) in simp_all)

lemma server_terminal_record_stays:
  assumes "distinct (posted_ids (evs @ evs'))"
    and "map_of (tasks (srv (exec_events evs system_init))) tid = Some r" "terminal (status r)"
  shows "map_of (tasks (srv (exec_events (evs @ evs') system_init))) tid = Some r"
  using assms(1)
proof (induction evs' rule: rev_induct)
  case Nil
  with assms(2) show ?case by simp
next
  case (snoc ev evs')
  have e: "exec_events (evs @ evs' @ [ev]) system_init
      = exec_event ev (exec_events (evs @ evs') system_init)"
    by (simp add: exec_events_def)
  from snoc.prems have d: "distinct (posted_ids (evs @ evs'))"
    "set (posted_ids [ev]) \<inter> set (posted_ids (evs @ evs')) = {}"
    by (auto simp: posted_ids_append)
  from d(2) have f: "set (posted_ids [ev])
      \<inter> fst ` set (tasks (srv (exec_events (evs @ evs') system_init))) = {}"
    by (simp only: server_store_keys)
  from terminal_stays_event [OF sound_events [OF d(1)] f snoc.IH [OF d(1)] assms(3)]
  show ?case using e by simp
qed

lemma server_never_crashes:
  assumes "distinct (posted_ids evs)" "j < length (jobs (exec_events evs system_init))"
  shows "\<forall>x. snd (snd (jobs (exec_events evs system_init) ! j)) \<noteq> Crashed x"
  using sound_job [OF sound_events [OF assms(1)] assms(2)]
  by (auto simp: agrees_def)

lemma server_records_consistent:
  assumes "distinct (posted_ids evs)"
    and "map_of (tasks (srv (exec_events evs system_init))) tid = Some r"
  shows "consistent r"
proof -
  let ?sys = "exec_events evs system_init"
  have s: "sound ?sys" using assms(1) by (rule sound_events)
  have "tid \<in> fst ` set (tasks (srv ?sys))" using assms(2) by (rule map_of_Some_key)
  then have "tid \<in> fst ` set (jobs ?sys)" using sound_keys [OF s] by simp
  then have "tid \<in> set (map fst (jobs ?sys))" by simp
  then obtain j where j: "j < length (jobs ?sys)" "map fst (jobs ?sys) ! j = tid"
    by (metis in_set_conv_nth length_map)
  then have "fst (jobs ?sys ! j) = tid" by simp
  with sound_job [OF s j(1)] assms(2) show ?thesis by auto
qed

section \<open>Closing the browser in \<^verbatim>\<open>app.py\<close>\<close>

text \<open>
  C1. In \<^verbatim>\<open>app.py\<close> a submitted task whose agent run returns is marked
  \<^verbatim>\<open>completed\<close> while \<^verbatim>\<open>browser.close()\<close> is still awaited; when the close then
  raises, the same record becomes \<^verbatim>\<open>failed\<close>.
\<close>

theorem app_completed_then_failed:
  "map (\<lambda>(k, r). (k, status r)) (app_tasks (app_state (app_exec_events
      [APost go_request ''t1'', ABackground True,
       AResume 0 app_env_ok, AResume 0 app_env_ok, AResume 0 app_env_ok] app_system_init)))
     = [(''t1'', ''completed'')]
   \<and> map (\<lambda>(k, r). (k, status r)) (app_tasks (app_state (app_exec_events
      [APost go_request ''t1'', ABackground True,
       AResume 0 app_env_ok, AResume 0 app_env_ok, AResume 0 app_env_ok,
       AResume 0 (app_env_ok\<lparr>app_close := Some (Exception ''close failed'')\<rparr>)] app_system_init)))
     = [(''t1'', ''failed'')]"
  by (simp add: app_exec_events_def app_system_init_def app_init_def app_create_task_def
      run_agent_task_def app_env_ok_def go_request_def final_task_def app_fail_task_def)

text \<open>
  C5. In \<^verbatim>\<open>app.py\<close> an execution whose agent run returns and whose
  \<^verbatim>\<open>browser.close()\<close> raises ends with a record that is \<^verbatim>\<open>failed\<close> and has both a
  result and an error.
\<close>

theorem app_failed_with_result_and_error:
  "async_run_task (app_env_ok\<lparr>app_close := Some (Exception ''close failed'')\<rparr>) ''t1''
     \<lparr>app_tasks =
        [(''t1'', \<lparr>status = ''pending'', result = None, error = None, task = ''go''\<rparr>)]\<rparr>
   = (AFinished,
      \<lparr>app_tasks = [(''t1'', \<lparr>status = ''failed'', result = Some [(''success'', PBool True)],
          error = Some ''close failed'', task = ''go''\<rparr>)]\<rparr>)"
  by (simp add: async_run_task_def app_env_ok_def app_fail_task_def)

section \<open>One construction for concurrent first callers\<close>

text \<open>
  The test \<^verbatim>\<open>browser_session is None\<close> and the assignment to \<^verbatim>\<open>browser_session\<close> are in
  the same uninterrupted segment of \<^verbatim>\<open>get_browser\<close>, so whatever the schedule, the state
  of the callers is cold or warm.
\<close>

lemma get_browser_call_cold:
  assumes "browser_session s = None" "sessions_made s = n0" "c = Calling \<or> (\<exists>x. c = Failed x)"
    and "get_browser_call e c s = (c', s')"
  shows "(browser_session s' = None \<and> sessions_made s' = n0 \<and> (c' = Calling \<or> (\<exists>x. c' = Failed x)))
       \<or> (browser_session s' = Some n0 \<and> sessions_made s' = Suc n0 \<and> c' = Starting)"
  using assms
  by (auto simp: get_browser_enter_def split: option.splits)

lemma get_browser_call_warm:
  assumes "browser_session s = Some n0" "sessions_made s = Suc n0"
    and "c = Calling \<or> c = Starting \<or> c = Got (Some n0) \<or> (\<exists>x. c = Failed x)"
    and "get_browser_call e c s = (c', s')"
  shows "browser_session s' = Some n0 \<and> sessions_made s' = Suc n0
       \<and> (c' = Calling \<or> c' = Starting \<or> c' = Got (Some n0) \<or> (\<exists>x. c' = Failed x))"
  using assms
  by (auto simp: get_browser_enter_def get_browser_resume_def split: option.splits)

lemma resume_caller_inv:
  assumes "cold n0 st \<or> warm n0 st"
  shows "cold n0 (resume_caller ev st) \<or> warm n0 (resume_caller ev st)"
proof -
  obtain i e where ev: "ev = (i, e)" by (cases ev)
  obtain cs s where st: "st = (cs, s)" by (cases st)
  show ?thesis
  proof (cases "i < length cs")
    case False
    with assms ev st show ?thesis by simp
  next
    case True
    obtain c' s' where step: "get_browser_call e (cs ! i) s = (c', s')"
      by (cases "get_browser_call e (cs ! i) s")
    have res: "resume_caller ev st = (cs[i := c'], s')"
      using ev st True step by simp
    have mem: "cs ! i \<in> set cs" using True by simp
    have sub: "set (cs[i := c']) \<subseteq> insert c' (set cs)" by (rule set_update_subset_insert)
    from assms show ?thesis
    proof
      assume c: "cold n0 st"
      then have h: "browser_session s = None" "sessions_made s = n0"
        "cs ! i = Calling \<or> (\<exists>x. cs ! i = Failed x)"
        using st mem by (auto simp: cold_def)
      have all: "\<forall>c \<in> set cs. c = Calling \<or> (\<exists>x. c = Failed x)"
        using c st by (simp add: cold_def)
      from get_browser_call_cold [OF h step] show ?thesis
      proof
        assume "browser_session s' = None \<and> sessions_made s' = n0 \<and> (c' = Calling \<or> (\<exists>x. c' = Failed x))"
        then have "cold n0 (cs[i := c'], s')"
          using all sub by (auto simp: cold_def)
        with res show ?thesis by simp
      next
        assume "browser_session s' = Some n0 \<and> sessions_made s' = Suc n0 \<and> c' = Starting"
        then have "warm n0 (cs[i := c'], s')"
          using all sub by (auto simp: warm_def)
        with res show ?thesis by simp
      qed
    next
      assume w: "warm n0 st"
      then have h: "browser_session s = Some n0" "sessions_made s = Suc n0"
        "cs ! i = Calling \<or> cs ! i = Starting \<or> cs ! i = Got (Some n0) \<or> (\<exists>x. cs ! i = Failed x)"
        using st mem by (auto simp: warm_def)
      have all: "\<forall>c \<in> set cs. c = Calling \<or> c = Starting \<or> c = Got (Some n0) \<or> (\<exists>x. c = Failed x)"
        using w st by (simp add: warm_def)
      from get_browser_call_warm [OF h step]
      have "warm n0 (cs[i := c'], s')"
        using all sub by (auto simp: warm_def)
      with res show ?thesis by simp
    qed
  qed
qed

lemma schedule_inv:
  assumes "cold n0 st \<or> warm n0 st"
  shows "cold n0 (foldl (\<lambda>st ev. resume_caller ev st) st schedule)
       \<or> warm n0 (foldl (\<lambda>st ev. resume_caller ev st) st schedule)"
  using assms
proof (induction schedule arbitrary: st)
  case Nil
  then show ?case by simp
next
  case (Cons ev schedule)
  from Cons.prems have "cold n0 (resume_caller ev st) \<or> warm n0 (resume_caller ev st)"
    by (rule resume_caller_inv)
  from Cons.IH [OF this] show ?case by simp
qed

lemma concurrent_get_browser_inv:
  assumes "browser_session s = None"
  shows "cold (sessions_made s) (concurrent_get_browser schedule n s)
       \<or> warm (sessions_made s) (concurrent_get_browser schedule n s)"
proof -
  have "cold (sessions_made s) (replicate n Calling, s)"
    using assms by (simp add: cold_def)
  then show ?thesis
    unfolding concurrent_get_browser_def by (intro schedule_inv) simp
qed

lemma get_llm_calls_warm:
  "llm_model s = Some l \<Longrightarrow> get_llm_calls es s = (replicate (length es) (Inr l), s)"
  by (induction es) (simp_all add: get_llm_def)

lemma get_llm_calls_cold:
  assumes "llm_model s = None" "get_llm_calls es s = (rs, s')"
  shows "(llm_model s' = None \<and> llms_made s' = llms_made s \<and> (\<forall>r \<in> set rs. \<exists>x. r = Inl x))
       \<or> (llm_model s' = Some (llms_made s) \<and> llms_made s' = Suc (llms_made s)
           \<and> (\<forall>r \<in> set rs. (\<exists>x. r = Inl x) \<or> r = Inr (llms_made s)))"
  using assms
proof (induction es arbitrary: s rs s')
  case Nil
  then show ?case by simp
next
  case (Cons e es)
  obtain r s1 where g: "get_llm e s = (r, s1)" by (cases "get_llm e s")
  obtain rs1 s2 where gs: "get_llm_calls es s1 = (rs1, s2)" by (cases "get_llm_calls es s1")
  from Cons.prems g gs have eq: "rs = r # rs1" "s' = s2" by simp_all
  show ?case
  proof (cases "llm_model s1")
    case None
    with g Cons.prems(1) have r: "\<exists>x. r = Inl x" "llms_made s1 = llms_made s"
      by (auto simp: get_llm_def split: option.splits)
    from Cons.IH [OF None gs] r eq show ?thesis by auto
  next
    case (Some l)
    with g Cons.prems(1) have r: "r = Inr (llms_made s)" "l = llms_made s"
      "llms_made s1 = Suc (llms_made s)"
      by (auto simp: get_llm_def split: option.splits)
    from get_llm_calls_warm [OF Some, of es] gs have "rs1 = replicate (length es) (Inr l)" "s2 = s1"
      by simp_all
    with r eq Some show ?thesis by auto
  qed
qed

lemma get_browser_call_quiet:
  assumes "quiet e" "\<forall>x. c \<noteq> Failed x" "get_browser_call e c s = (c', s')"
  shows "\<forall>x. c' \<noteq> Failed x"
  using assms
  by (cases c) (auto simp: quiet_def get_browser_enter_def get_browser_resume_def
      split: option.splits)

lemma resume_caller_quiet:
  assumes "quiet (snd ev)" "\<forall>c \<in> set (fst st). \<forall>x. c \<noteq> Failed x"
  shows "\<forall>c \<in> set (fst (resume_caller ev st)). \<forall>x. c \<noteq> Failed x"
proof -
  obtain i e where ev: "ev = (i, e)" by (cases ev)
  obtain cs s where st: "st = (cs, s)" by (cases st)
  show ?thesis
  proof (cases "i < length cs")
    case False
    with assms ev st show ?thesis by simp
  next
    case True
    obtain c' s' where step: "get_browser_call e (cs ! i) s = (c', s')"
      by (cases "get_browser_call e (cs ! i) s")
    have "\<forall>x. cs ! i \<noteq> Failed x" using assms(2) st True by simp
    with assms(1) ev step have c': "\<forall>x. c' \<noteq> Failed x"
      using get_browser_call_quiet [of e "cs ! i" s c' s'] by simp
    have "set (cs[i := c']) \<subseteq> insert c' (set cs)" by (rule set_update_subset_insert)
    with c' assms(2) st have "\<forall>c \<in> set (cs[i := c']). \<forall>x. c \<noteq> Failed x" by auto
    with ev st True step show ?thesis by simp
  qed
qed

lemma resume_caller_length: "length (fst (resume_caller ev st)) = length (fst st)"
  by (cases ev, cases st) (simp split: prod.splits)

lemma schedule_quiet:
  assumes "\<forall>ev \<in> set schedule. quiet (snd ev)" "\<forall>c \<in> set (fst st). \<forall>x. c \<noteq> Failed x"
  shows "\<forall>c \<in> set (fst (foldl (\<lambda>st ev. resume_caller ev st) st schedule)). \<forall>x. c \<noteq> Failed x"
  using assms
proof (induction schedule arbitrary: st)
  case Nil
  then show ?case by simp
next
  case (Cons ev schedule)
  have "\<forall>c \<in> set (fst (resume_caller ev st)). \<forall>x. c \<noteq> Failed x"
    using Cons.prems by (intro resume_caller_quiet) simp_all
  with Cons.IH [of "resume_caller ev st"] Cons.prems(1) show ?case by simp
qed

lemma schedule_length:
  "length (fst (foldl (\<lambda>st ev. resume_caller ev st) st schedule)) = length (fst st)"
  by (induction schedule arbitrary: st) (simp_all add: resume_caller_length)

lemma get_llm_quiet:
  "import_llm e = None \<Longrightarrow> make_llm e = None \<Longrightarrow> \<exists>l. fst (get_llm e s) = Inr l"
  by (simp add: get_llm_def split: option.splits)

lemma get_llm_calls_quiet:
  assumes "\<forall>e \<in> set es. import_llm e = None \<and> make_llm e = None"
    and "get_llm_calls es s = (rs, s')"
  shows "\<forall>r \<in> set rs. \<exists>l. r = Inr l"
  using assms
proof (induction es arbitrary: s rs s')
  case Nil
  then show ?case by simp
next
  case (Cons e es)
  obtain r s1 where g: "get_llm e s = (r, s1)" by (cases "get_llm e s")
  obtain rs1 s2 where gs: "get_llm_calls es s1 = (rs1, s2)" by (cases "get_llm_calls es s1")
  have "\<exists>l. r = Inr l"
    using get_llm_quiet [of e s] Cons.prems(1) g by simp
  moreover have "\<forall>r \<in> set rs1. \<exists>l. r = Inr l"
    using Cons.IH [OF _ gs] Cons.prems(1) by simp
  moreover have "rs = r # rs1" using Cons.prems(2) g gs by simp
  ultimately show ?case by simp
qed

text \<open>
  C4. Whatever the schedule of \<open>n\<close> concurrent callers of \<^verbatim>\<open>get_browser\<close> on a cold
  provisioner, at most one session is built, and every caller that has got a return
  value has got that one session, which is the cached one; when nothing raises, no
  caller gets an exception. The same holds for calls of \<^verbatim>\<open>get_llm\<close>. There is no lock:
  the event loop runs the test and the assignment of a first caller without interruption.
\<close>

theorem single_construction:
  "(browser_session s = None \<longrightarrow>
      (case concurrent_get_browser schedule n s of
         (cs, s') \<Rightarrow>
           length cs = n
           \<and> sessions_made s' \<le> Suc (sessions_made s)
           \<and> (\<forall>c \<in> set cs. \<forall>b. c = Got b \<longrightarrow>
                 b = Some (sessions_made s) \<and> browser_session s' = b
                 \<and> sessions_made s' = Suc (sessions_made s))
           \<and> ((\<forall>ev \<in> set schedule. quiet (snd ev)) \<longrightarrow>
                 (\<forall>c \<in> set cs. c = Calling \<or> c = Starting \<or> c = Got (Some (sessions_made s))))))
   \<and> (llm_model s = None \<longrightarrow>
      (case get_llm_calls es s of
         (rs, s') \<Rightarrow>
           length rs = length es
           \<and> llms_made s' \<le> Suc (llms_made s)
           \<and> (\<forall>r \<in> set rs. \<forall>l. r = Inr l \<longrightarrow>
                 l = llms_made s \<and> llm_model s' = Some l \<and> llms_made s' = Suc (llms_made s))
           \<and> ((\<forall>e \<in> set es. import_llm e = None \<and> make_llm e = None) \<longrightarrow>
                 (\<forall>r \<in> set rs. r = Inr (llms_made s)))))"
proof (intro conjI impI)
  assume cold0: "browser_session s = None"
  obtain cs s' where run: "concurrent_get_browser schedule n s = (cs, s')"
    by (cases "concurrent_get_browser schedule n s")
  have inv: "cold (sessions_made s) (cs, s') \<or> warm (sessions_made s) (cs, s')"
    using concurrent_get_browser_inv [OF cold0, of schedule n] run by simp
  have len: "length cs = n"
    using schedule_length [of "(replicate n Calling, s)" schedule] run
    by (simp add: concurrent_get_browser_def)
  have quiet_part: "\<forall>c \<in> set cs. \<forall>x. c \<noteq> Failed x" if "\<forall>ev \<in> set schedule. quiet (snd ev)"
    using schedule_quiet [OF that, of "(replicate n Calling, s)"] run
    by (simp add: concurrent_get_browser_def)
  from inv have a: "sessions_made s' \<le> Suc (sessions_made s)"
    by (auto simp: cold_def warm_def)
  from inv have b: "\<forall>c \<in> set cs. \<forall>b. c = Got b \<longrightarrow>
      b = Some (sessions_made s) \<and> browser_session s' = b
      \<and> sessions_made s' = Suc (sessions_made s)"
    by (auto simp: cold_def warm_def)
  have c: "(\<forall>ev \<in> set schedule. quiet (snd ev)) \<longrightarrow>
      (\<forall>c \<in> set cs. c = Calling \<or> c = Starting \<or> c = Got (Some (sessions_made s)))"
  proof
    assume q: "\<forall>ev \<in> set schedule. quiet (snd ev)"
    from quiet_part [OF q] inv
    show "\<forall>c \<in> set cs. c = Calling \<or> c = Starting \<or> c = Got (Some (sessions_made s))"
      by (auto simp: cold_def warm_def)
  qed
  from len a b c run
  show "case concurrent_get_browser schedule n s of
         (cs, s') \<Rightarrow>
           length cs = n
           \<and> sessions_made s' \<le> Suc (sessions_made s)
           \<and> (\<forall>c \<in> set cs. \<forall>b. c = Got b \<longrightarrow>
                 b = Some (sessions_made s) \<and> browser_session s' = b
                 \<and> sessions_made s' = Suc (sessions_made s))
           \<and> ((\<forall>ev \<in> set schedule. quiet (snd ev)) \<longrightarrow>
                 (\<forall>c \<in> set cs. c = Calling \<or> c = Starting \<or> c = Got (Some (sessions_made s))))"
    by simp
next
  assume cold0: "llm_model s = None"
  obtain rs s' where run: "get_llm_calls es s = (rs, s')" by (cases "get_llm_calls es s")
  have len: "length rs = length es"
    using run by (induction es arbitrary: s rs s') (auto split: prod.splits)
  note inv = get_llm_calls_cold [OF cold0 run]
  from inv have a: "llms_made s' \<le> Suc (llms_made s)" by auto
  from inv have b: "\<forall>r \<in> set rs. \<forall>l. r = Inr l \<longrightarrow>
      l = llms_made s \<and> llm_model s' = Some l \<and> llms_made s' = Suc (llms_made s)"
    by auto
  have noerr: "\<forall>r \<in> set rs. \<exists>l. r = Inr l"
    if "\<forall>e \<in> set es. import_llm e = None \<and> make_llm e = None"
    using get_llm_calls_quiet [OF that run] .
  have c: "(\<forall>e \<in> set es. import_llm e = None \<and> make_llm e = None) \<longrightarrow>
      (\<forall>r \<in> set rs. r = Inr (llms_made s))"
  proof
    assume q: "\<forall>e \<in> set es. import_llm e = None \<and> make_llm e = None"
    from noerr [OF q] inv show "\<forall>r \<in> set rs. r = Inr (llms_made s)" by auto
  qed
  from len a b c run
  show "case get_llm_calls es s of
         (rs, s') \<Rightarrow>
           length rs = length es
           \<and> llms_made s' \<le> Suc (llms_made s)
           \<and> (\<forall>r \<in> set rs. \<forall>l. r = Inr l \<longrightarrow>
                 l = llms_made s \<and> llm_model s' = Some l \<and> llms_made s' = Suc (llms_made s))
           \<and> ((\<forall>e \<in> set es. import_llm e = None \<and> make_llm e = None) \<longrightarrow>
                 (\<forall>r \<in> set rs. r = Inr (llms_made s)))"
    by simp
qed

text \<open>
  Three callers on a cold provisioner: the first suspends on the start of the session,
  the other two get the session at once, then the first one resumes.
\<close>

theorem single_construction_witness:
  "browser_session server_init = None \<and> llm_model server_init = None
   \<and> quiet env_ok \<and> import_llm env_ok = None \<and> make_llm env_ok = None
   \<and> concurrent_get_browser [(0, env_ok), (1, env_ok), (2, env_ok), (0, env_ok)] 3 server_init
       = ([Got (Some 0), Got (Some 0), Got (Some 0)],
          server_init\<lparr>browser_session := Some 0, sessions_made := 1\<rparr>)
   \<and> get_llm_calls [env_ok, env_ok, env_ok] server_init
       = ([Inr 0, Inr 0, Inr 0], server_init\<lparr>llm_model := Some 0, llms_made := 1\<rparr>)"
  using single_construction [where s = server_init and n = 3 and es = "[env_ok, env_ok, env_ok]"
      and schedule = "[(0, env_ok), (1, env_ok), (2, env_ok), (0, env_ok)]"]
  by (simp add: concurrent_get_browser_def get_browser_enter_def get_browser_resume_def
      get_llm_def env_ok_def server_init_def quiet_def numeral_3_eq_3)

end
